(* ===== verification/Prelude.thy ===== *)
theory Prelude
  imports Main "HOL-Library.Word"
begin

text \<open>
  Shared ground of the development: the machine types of the C code on an LP64 little-endian
  host (\<open>char\<close>, \<open>int\<close>, \<open>uint32_t\<close>, \<open>size_t\<close>), little-endian layout of integers in byte
  buffers, C strings as byte lists, and the list lemmas the components use.

  Named collections: \<open>layout_simps\<close> rewrites reads of laid-out integers.
\<close>

unbundle bit_operations_syntax

section \<open>Machine types\<close>

type_synonym byte = "8 word"
type_synonym u16 = "16 word"
type_synonym u32 = "32 word"
type_synonym u64 = "64 word"
type_synonym size_t = "64 word"

text \<open>A C string is the list of its bytes before the terminating NUL; \<open>None\<close> is the null pointer.\<close>

type_synonym cstr = "byte list"

text \<open>The bytes of a string literal.\<close>

definition lit :: "string \<Rightarrow> cstr" where
  "lit s = map of_char s"

lemma of_char_byte_inject: "(of_char c :: byte) = of_char d \<longleftrightarrow> c = d"
proof
  assume "(of_char c :: byte) = of_char d"
  then have "unat (of_char c :: byte) = unat (of_char d :: byte)" by simp
  moreover have "unat (of_char e :: byte) = of_char e" for e
  proof -
    have "(of_char e :: byte) = of_nat (of_char e)" by (cases e) simp
    moreover have "(of_char e :: nat) < 256" by simp
    ultimately show ?thesis by (simp add: unsigned_of_nat take_bit_nat_eq_self)
  qed
  ultimately show "c = d" by simp
qed simp

lemma lit_eq [simp]: "lit s = lit t \<longleftrightarrow> s = t"
proof
  show "lit s = lit t \<Longrightarrow> s = t"
    unfolding lit_def
    by (induction s t rule: list_induct2') (simp_all add: of_char_byte_inject)
qed simp

lemma lit_Nil [simp]: "lit s = [] \<longleftrightarrow> s = []" "[] = lit s \<longleftrightarrow> s = []"
  by (auto simp: lit_def)

lemma length_lit [simp]: "length (lit s) = length s"
  by (simp add: lit_def)

text \<open>What makes a byte list a C string.\<close>

definition no_nul :: "cstr \<Rightarrow> bool" where
  "no_nul s \<longleftrightarrow> 0 \<notin> set s"

lemma no_nul_simps [simp]:
  "no_nul []" "no_nul (b # s) \<longleftrightarrow> b \<noteq> 0 \<and> no_nul s" "no_nul (s @ t) \<longleftrightarrow> no_nul s \<and> no_nul t"
  by (auto simp: no_nul_def)

lemma no_nul_takeWhile [simp]: "no_nul s \<Longrightarrow> takeWhile (\<lambda>b. b \<noteq> 0) (s @ 0 # t) = s"
  by (induction s) auto

lemma no_nul_lit [simp]: "no_nul (lit s) \<longleftrightarrow> CHR 0x00 \<notin> set s"
proof -
  have "(of_char c :: byte) = 0 \<longleftrightarrow> c = CHR 0x00" for c
    using of_char_byte_inject [of c "CHR 0x00"] by simp
  then show ?thesis by (auto simp: no_nul_def lit_def image_iff)
qed

named_theorems layout_simps "reads of integers laid out in byte buffers"

abbreviation int_min :: int where "int_min \<equiv> - (2 ^ 31)"
abbreviation int_max :: int where "int_max \<equiv> 2 ^ 31 - 1"

text \<open>Conversion of any unsigned value to \<open>int\<close>, as gcc defines it: the low 32 bits, read signed.\<close>

definition to_int :: "'a::len word \<Rightarrow> int" where
  "to_int w = sint (ucast w :: u32)"

text \<open>Conversion of an \<open>int\<close> to \<open>size_t\<close>: sign extension, that is, reduction modulo \<open>2 ^ 64\<close>.\<close>

definition size_of_int :: "int \<Rightarrow> size_t" where
  "size_of_int i = word_of_int i"

lemma to_int_bounds: "int_min \<le> to_int w" "to_int w \<le> int_max"
  using sint_ge [of "ucast w :: u32"] sint_lt [of "ucast w :: u32"] by (simp_all add: to_int_def)

lemma to_int_small: "unat w < 2 ^ 31 \<Longrightarrow> to_int (w :: 'a::len word) = int (unat w)"
proof -
  assume small: "unat w < 2 ^ 31"
  then have "int (unat w) < int (2 ^ 31)" by (simp only: of_nat_less_iff)
  then have "uint w < 2 ^ 31" by simp
  moreover have "- (2 ^ 31) \<le> uint w"
    by (rule order_trans [OF _ uint_ge_0]) simp
  ultimately have "signed_take_bit 31 (uint w) = uint w"
    by (simp add: signed_take_bit_int_eq_self_iff)
  then show ?thesis by (simp add: to_int_def signed_ucast_eq)
qed

lemma to_int_of_nat:
  "n < 2 ^ 31 \<Longrightarrow> 31 < LENGTH('a::len) \<Longrightarrow> to_int (of_nat n :: 'a word) = int n"
proof -
  assume n: "n < 2 ^ 31" and l: "31 < LENGTH('a)"
  have "(2::nat) ^ 31 \<le> 2 ^ LENGTH('a)" using l by (intro power_increasing) simp_all
  with n have "n < 2 ^ LENGTH('a)" by (rule less_le_trans)
  then have "unat (of_nat n :: 'a word) = n"
    by (simp add: unsigned_of_nat take_bit_nat_eq_self)
  with n show ?thesis using to_int_small [of "of_nat n :: 'a word"] by simp
qed

lemma unat_of_nat_size: "n < 2 ^ 64 \<Longrightarrow> unat (of_nat n :: size_t) = n"
  by (simp add: unsigned_of_nat take_bit_nat_eq_self)

lemma map_del_fresh [simp]: "m i = None \<Longrightarrow> m(i := None) = m"
  by (rule fun_upd_idem)

section \<open>Little-endian layout\<close>

fun le_enc :: "nat \<Rightarrow> 'a::len word \<Rightarrow> byte list" where
  "le_enc 0 w = []"
| "le_enc (Suc n) w = ucast w # le_enc n (drop_bit 8 w)"

fun le_dec :: "byte list \<Rightarrow> 'a::len word" where
  "le_dec [] = 0"
| "le_dec (b # bs) = ucast b OR push_bit 8 (le_dec bs)"

lemma length_le_enc [simp]: "length (le_enc n w) = n"
  by (induction n arbitrary: w) auto

lemma le_dec_enc_take: "le_dec (le_enc n w) = take_bit (8 * n) (w :: 'a::len word)"
proof (induction n arbitrary: w)
  case 0
  show ?case by simp
next
  case (Suc n)
  have "ucast (ucast w :: byte) = (take_bit 8 w :: 'a word)"
    by (rule bit_word_eqI) (auto simp: bit_simps)
  then have "le_dec (le_enc (Suc n) w) = take_bit 8 w OR push_bit 8 (take_bit (8 * n) (drop_bit 8 w))"
    by (simp add: Suc)
  also have "\<dots> = take_bit (8 * Suc n) w"
    by (rule bit_word_eqI) (auto simp: bit_simps)
  finally show ?case .
qed

lemma le_dec_enc [simp, layout_simps]:
  "LENGTH('a) \<le> 8 * n \<Longrightarrow> le_dec (le_enc n w) = (w :: 'a::len word)"
proof -
  assume "LENGTH('a) \<le> 8 * n"
  then have "take_bit (8 * n) w = w" by (intro bit_word_eqI) (auto simp: bit_simps)
  then show ?thesis by (simp add: le_dec_enc_take)
qed

text \<open>\<open>((uint32_t *)buf)[i]\<close> and the four bytes a store of a \<open>uint32_t\<close> writes.\<close>

definition u32_at :: "byte list \<Rightarrow> nat \<Rightarrow> u32" where
  "u32_at bs i = le_dec (take 4 (drop (4 * i) bs))"

definition le32 :: "u32 \<Rightarrow> byte list" where
  "le32 w = le_enc 4 w"

definition le64 :: "u64 \<Rightarrow> byte list" where
  "le64 w = le_enc 8 w"

lemma length_le32 [simp]: "length (le32 w) = 4" by (simp add: le32_def)
lemma length_le64 [simp]: "length (le64 w) = 8" by (simp add: le64_def)

lemma le32_not_Nil [simp]: "le32 w \<noteq> []"
  by (metis length_le32 list.size(3) zero_neq_numeral)

lemma le_dec_le32 [simp, layout_simps]: "le_dec (le32 w) = w"
  by (simp add: le32_def)

lemma le_dec_le64 [simp, layout_simps]: "le_dec (le64 w) = w"
  by (simp add: le64_def)

text \<open>And back: bytes survive decoding and encoding.\<close>

lemma bit_le_dec:
  "bit (le_dec bs :: 'a::len word) k \<longleftrightarrow> k < LENGTH('a) \<and> k < 8 * length bs \<and> bit (bs ! (k div 8)) (k mod 8)"
proof (induction bs arbitrary: k)
  case Nil
  then show ?case by simp
next
  case (Cons b bs)
  show ?case
  proof (cases "k < 8")
    case True
    then show ?thesis by (auto simp: bit_simps)
  next
    case False
    then obtain j where k: "k = j + 8" by (metis le_add_diff_inverse2 not_less)
    have "bit (ucast b :: 'a word) k = False" using k by (auto simp: bit_simps dest: bit_imp_le_length)
    moreover have "(j + 8) div 8 = Suc (j div 8)" by simp
    ultimately show ?thesis using Cons [of j] k by (auto simp: bit_simps)
  qed
qed

lemma nth_le_enc: "i < n \<Longrightarrow> le_enc n w ! i = ucast (drop_bit (8 * i) w)"
proof (induction n arbitrary: i w)
  case (Suc n)
  then show ?case by (cases i) (simp_all add: add.commute)
qed simp

lemma le_enc_dec:
  assumes "8 * length bs \<le> LENGTH('a)"
  shows "le_enc (length bs) (le_dec bs :: 'a::len word) = bs"
proof (rule nth_equalityI)
  fix i assume "i < length (le_enc (length bs) (le_dec bs :: 'a word))"
  then have i: "i < length bs" by simp
  show "le_enc (length bs) (le_dec bs :: 'a word) ! i = bs ! i"
  proof (rule bit_word_eqI)
    fix j assume "j < LENGTH(8)"
    then have j: "j < 8" by simp
    have "(8 * i + j) div 8 = i" "(8 * i + j) mod 8 = j" "8 * i + j < 8 * length bs" using i j by simp_all
    then show "bit (le_enc (length bs) (le_dec bs :: 'a word) ! i) j = bit (bs ! i) j"
      using i j assms by (simp add: nth_le_enc bit_simps bit_le_dec)
  qed
qed simp

lemma le32_bytes:
  "le32 w = [ucast w, ucast (drop_bit 8 w), ucast (drop_bit 16 w), ucast (drop_bit 24 w)]"
  by (simp add: le32_def numeral_eq_Suc)

lemma u32_at_0 [layout_simps]: "u32_at (le32 w @ bs) 0 = w"
  by (simp add: u32_at_def)

lemma u32_at_Suc [layout_simps]: "u32_at (le32 w @ bs) (Suc i) = u32_at bs i"
  by (simp add: u32_at_def)

lemma u32_at_numeral [layout_simps]:
  "u32_at (le32 w @ bs) (numeral k) = u32_at bs (pred_numeral k)"
  by (simp add: u32_at_def numeral_eq_Suc)

lemma u32_at_1 [layout_simps]: "u32_at (le32 w @ bs) 1 = u32_at bs 0"
  by (simp add: u32_at_def)

lemma u32_at_single [layout_simps]: "u32_at (le32 w) 0 = w"
  by (simp add: u32_at_def)

section \<open>Masks and shifts\<close>

lemma and_255: "x AND 255 = take_bit 8 (x :: 'a::len word)"
  using take_bit_eq_mask [of 8 x] by (simp add: mask_eq_exp_minus_1)

lemma unat_mod_256 [simp]: "8 < LENGTH('a) \<Longrightarrow> unat (x mod 256 :: 'a::len word) = unat x mod 256"
proof -
  have "x mod 256 = take_bit 8 x" by (simp add: take_bit_eq_mod)
  then have "unat (x mod 256) = take_bit 8 (unat x)" by (simp only: unsigned_take_bit_eq)
  then show ?thesis by (simp add: take_bit_eq_mod)
qed

text \<open>A 24-bit length above an 8-bit type: the header word of every parameter and expression.\<close>

lemma type_of_header:
  assumes "unat (ty :: u32) < 256"
  shows "(push_bit 8 len OR ty) AND 0xFF = ty"
proof -
  from assms have "unat (take_bit 8 ty) = unat ty"
    by (simp add: unsigned_take_bit_eq take_bit_nat_eq_self)
  then have t: "take_bit 8 ty = ty" by (simp only: word_unat_eq_iff)
  have "(push_bit 8 len OR ty) AND 0xFF = take_bit 8 ty"
    unfolding and_255 by (rule bit_word_eqI) (auto simp: bit_simps)
  with t show ?thesis by simp
qed

end
