(* ===== verification/Cmd.thy ===== *)
theory Cmd
  imports Prelude
begin

text \<open>
  The shape of every C function of the client: a body that runs statement by statement and may
  leave early by \<open>goto BYE\<close> (the macros \<open>go_BYE\<close> and \<open>cBYE\<close> of inc/macros.h) or by a direct
  \<open>return\<close>, and a BYE section that runs afterwards. A call yields an \<open>outcome\<close>: it returns, it has
  undefined behaviour of a named kind, or it blocks in \<open>read\<close> for ever.

  A body works on a pair of the function's local variables (those its BYE section reads) and the
  world. \<open>wp\<close> and \<open>runs\<close> are the weakest preconditions of bodies and calls; their equations are
  collected in \<open>wp_simps\<close> and turn a goal about a body into the goals of its calls.
\<close>

section \<open>Outcomes of calls\<close>

datatype ub =
    Null_deref
  | Out_of_bounds
  | Bad_free
  | Uninit_use
  | Signed_overflow
  | Unterminated

datatype ('a, 's) outcome =
    Done 'a 's
  | Undef ub
  | Blocked

definition obind :: "('a, 's) outcome \<Rightarrow> ('a \<Rightarrow> 's \<Rightarrow> ('b, 't) outcome) \<Rightarrow> ('b, 't) outcome" where
  "obind m k = (case m of Done a s \<Rightarrow> k a s | Undef u \<Rightarrow> Undef u | Blocked \<Rightarrow> Blocked)"

lemma obind_simps [simp]:
  "obind (Done a s) k = k a s"
  "obind (Undef u) k = Undef u"
  "obind Blocked k = Blocked"
  by (simp_all add: obind_def)

section \<open>Bodies\<close>

datatype ('a, 'r, 's) flow =
    Val 'a 's
  | Bye int 's
  | Return 'r 's
  | Fault ub
  | Stuck

type_synonym ('a, 'r, 'l, 'w) cmd = "'l \<times> 'w \<Rightarrow> ('a, 'r, 'l \<times> 'w) flow"

definition done_with :: "'a \<Rightarrow> ('a, 'r, 'l, 'w) cmd" where
  "done_with a = (\<lambda>s. Val a s)"

definition chain ::
    "('a, 'r, 'l, 'w) cmd \<Rightarrow> ('a \<Rightarrow> ('b, 'r, 'l, 'w) cmd) \<Rightarrow> ('b, 'r, 'l, 'w) cmd" where
  "chain m k = (\<lambda>s. case m s of
       Val a s' \<Rightarrow> k a s'
     | Bye st s' \<Rightarrow> Bye st s'
     | Return r s' \<Rightarrow> Return r s'
     | Fault u \<Rightarrow> Fault u
     | Stuck \<Rightarrow> Stuck)"

text \<open>\<open>go_BYE(st)\<close>, and the two conditional forms the sources use: \<open>if (c) { go_BYE(st); }\<close> and
  \<open>cBYE(st)\<close>, which leaves when \<open>st\<close> is negative.\<close>

definition go_BYE :: "int \<Rightarrow> ('a, 'r, 'l, 'w) cmd" where
  "go_BYE st = (\<lambda>s. Bye st s)"

definition bye_when :: "bool \<Rightarrow> int \<Rightarrow> (unit, 'r, 'l, 'w) cmd" where
  "bye_when c st = (if c then go_BYE st else done_with ())"

definition cBYE :: "int \<Rightarrow> (unit, 'r, 'l, 'w) cmd" where
  "cBYE st = bye_when (st < 0) st"

definition return_with :: "'r \<Rightarrow> ('a, 'r, 'l, 'w) cmd" where
  "return_with r = (\<lambda>s. Return r s)"

definition return_when :: "bool \<Rightarrow> 'r \<Rightarrow> (unit, 'r, 'l, 'w) cmd" where
  "return_when c r = (if c then return_with r else done_with ())"

definition fault :: "ub \<Rightarrow> ('a, 'r, 'l, 'w) cmd" where
  "fault u = (\<lambda>s. Fault u)"

definition call :: "('w \<Rightarrow> ('a, 'w) outcome) \<Rightarrow> ('a, 'r, 'l, 'w) cmd" where
  "call f = (\<lambda>(l, w). case f w of
       Done a w' \<Rightarrow> Val a (l, w') | Undef u \<Rightarrow> Fault u | Blocked \<Rightarrow> Stuck)"

definition get_loc :: "('l \<Rightarrow> 'a) \<Rightarrow> ('a, 'r, 'l, 'w) cmd" where
  "get_loc f = (\<lambda>(l, w). Val (f l) (l, w))"

definition upd_loc :: "('l \<Rightarrow> 'l) \<Rightarrow> (unit, 'r, 'l, 'w) cmd" where
  "upd_loc f = (\<lambda>(l, w). Val () (f l, w))"

text \<open>A \<open>int\<close> subtraction: leaving the range of \<open>int\<close> is undefined.\<close>

definition int_sub :: "int \<Rightarrow> int \<Rightarrow> (int, 'r, 'l, 'w) cmd" where
  "int_sub a b = (if int_min \<le> a - b \<and> a - b \<le> int_max then done_with (a - b)
                  else fault Signed_overflow)"

text \<open>
  A function with locals \<open>l\<close>: its body, whose value is the status on reaching BYE by falling
  through, and its BYE section, which gets the status, the locals and the world.
\<close>

definition proc ::
    "'l \<Rightarrow> (int, 'r, 'l, 'w) cmd \<Rightarrow> (int \<Rightarrow> 'l \<Rightarrow> 'w \<Rightarrow> ('r, 'w) outcome) \<Rightarrow> 'w \<Rightarrow> ('r, 'w) outcome"
where
  "proc l body bye w = (case body (l, w) of
       Val st (l', w') \<Rightarrow> bye st l' w'
     | Bye st (l', w') \<Rightarrow> bye st l' w'
     | Return r (l', w') \<Rightarrow> Done r w'
     | Fault u \<Rightarrow> Undef u
     | Stuck \<Rightarrow> Blocked)"

text \<open>Symbolic execution: the value of a statement on a given state.\<close>

lemma exec_done_with [simp]: "done_with a s = Val a s" by (simp add: done_with_def)
lemma exec_go_BYE [simp]: "go_BYE st s = Bye st s" by (simp add: go_BYE_def)
lemma exec_return_with [simp]: "return_with r s = Return r s" by (simp add: return_with_def)
lemma exec_fault [simp]: "fault u s = Fault u" by (simp add: fault_def)
lemma exec_get_loc [simp]: "get_loc f (l, w) = Val (f l) (l, w)" by (simp add: get_loc_def)
lemma exec_upd_loc [simp]: "upd_loc g (l, w) = Val () (g l, w)" by (simp add: upd_loc_def)

lemma exec_when [simp]:
  "bye_when c st s = (if c then Bye st s else Val () s)"
  "cBYE st s = (if st < 0 then Bye st s else Val () s)"
  "return_when c r s = (if c then Return r s else Val () s)"
  by (simp_all add: bye_when_def cBYE_def return_when_def)

lemma exec_call [simp]:
  "call f (l, w) = (case f w of Done a w' \<Rightarrow> Val a (l, w') | Undef u \<Rightarrow> Fault u | Blocked \<Rightarrow> Stuck)"
  by (simp add: call_def)

lemma exec_chain:
  "chain m k s = (case m s of
       Val a s' \<Rightarrow> k a s' | Bye st s' \<Rightarrow> Bye st s' | Return r s' \<Rightarrow> Return r s'
     | Fault u \<Rightarrow> Fault u | Stuck \<Rightarrow> Stuck)"
  by (simp add: chain_def)

lemma bye_when_False: "chain (bye_when False st) k = k ()"
  by (simp add: chain_def fun_eq_iff)

lemma chain_assoc: "chain m (\<lambda>a. chain (k a) h) = chain (chain m k) h"
  by (rule ext) (auto simp: chain_def split: flow.splits)

section \<open>Weakest preconditions\<close>

text \<open>
  \<open>runs blk m Q\<close>: the call \<open>m\<close> has no undefined behaviour, it returns with a result in \<open>Q\<close>, or it
  blocks and \<open>blk\<close> says that it may. \<open>wp\<close> is the same for a body, with one postcondition for
  each way of leaving a statement.
\<close>

definition runs :: "bool \<Rightarrow> ('a, 's) outcome \<Rightarrow> ('a \<Rightarrow> 's \<Rightarrow> bool) \<Rightarrow> bool" where
  "runs blk m Q = (case m of Done a s \<Rightarrow> Q a s | Undef u \<Rightarrow> False | Blocked \<Rightarrow> blk)"

definition wp ::
    "bool \<Rightarrow> ('a, 'r, 'l, 'w) cmd \<Rightarrow> ('a \<Rightarrow> 'l \<Rightarrow> 'w \<Rightarrow> bool) \<Rightarrow> (int \<Rightarrow> 'l \<Rightarrow> 'w \<Rightarrow> bool)
      \<Rightarrow> ('r \<Rightarrow> 'l \<Rightarrow> 'w \<Rightarrow> bool) \<Rightarrow> 'l \<Rightarrow> 'w \<Rightarrow> bool"
where
  "wp blk m Q B R l w = (case m (l, w) of
       Val a (l', w') \<Rightarrow> Q a l' w'
     | Bye st (l', w') \<Rightarrow> B st l' w'
     | Return r (l', w') \<Rightarrow> R r l' w'
     | Fault u \<Rightarrow> False
     | Stuck \<Rightarrow> blk)"

named_theorems wp_simps "weakest preconditions of statements"

lemma wp_chain [wp_simps]:
  "wp blk (chain m k) Q B R l w = wp blk m (\<lambda>a l' w'. wp blk (k a) Q B R l' w') B R l w"
  by (auto simp: wp_def chain_def split: flow.splits prod.splits)

lemma wp_done_with [wp_simps]: "wp blk (done_with a) Q B R l w = Q a l w"
  by (simp add: wp_def)

lemma wp_go_BYE [wp_simps]: "wp blk (go_BYE st) Q B R l w = B st l w"
  by (simp add: wp_def)

lemma wp_return_with [wp_simps]: "wp blk (return_with r) Q B R l w = R r l w"
  by (simp add: wp_def)

lemma wp_fault [wp_simps]: "wp blk (fault u) Q B R l w = False"
  by (simp add: wp_def)

lemma wp_get_loc [wp_simps]: "wp blk (get_loc f) Q B R l w = Q (f l) l w"
  by (simp add: wp_def)

lemma wp_upd_loc [wp_simps]: "wp blk (upd_loc g) Q B R l w = Q () (g l) w"
  by (simp add: wp_def)

lemma wp_bye_when [wp_simps]: "wp blk (bye_when c st) Q B R l w = (if c then B st l w else Q () l w)"
  by (simp add: wp_def)

lemma wp_cBYE [wp_simps]: "wp blk (cBYE st) Q B R l w = (if st < 0 then B st l w else Q () l w)"
  by (simp add: wp_def)

lemma wp_return_when [wp_simps]: "wp blk (return_when c r) Q B R l w = (if c then R r l w else Q () l w)"
  by (simp add: wp_def)

lemma wp_int_sub [wp_simps]:
  "wp blk (int_sub a b) Q B R l w =
     (int_min \<le> a - b \<and> a - b \<le> int_max \<and> Q (a - b) l w)"
  by (auto simp: wp_def int_sub_def)

lemma wp_call [wp_simps]:
  "wp blk (call f) Q B R l w = runs blk (f w) (\<lambda>a w'. Q a l w')"
  by (simp add: wp_def runs_def split: outcome.splits)

lemma wp_if [wp_simps]:
  "wp blk (if c then m else n) Q B R l w = (if c then wp blk m Q B R l w else wp blk n Q B R l w)"
  by simp

lemma runs_Done [wp_simps, simp]: "runs blk (Done a s) Q = Q a s"
  by (simp add: runs_def)

lemma runs_Undef [wp_simps, simp]: "runs blk (Undef u) Q = False"
  by (simp add: runs_def)

lemma runs_Blocked [wp_simps, simp]: "runs blk Blocked Q = blk"
  by (simp add: runs_def)

lemma runs_obind [wp_simps]:
  "runs blk (obind m k) Q = runs blk m (\<lambda>a s. runs blk (k a s) Q)"
  by (simp add: runs_def obind_def split: outcome.splits)

lemma runs_proc [wp_simps]:
  "runs blk (proc l body bye w) Q =
     wp blk body (\<lambda>st l' w'. runs blk (bye st l' w') Q) (\<lambda>st l' w'. runs blk (bye st l' w') Q)
       (\<lambda>r l' w'. Q r w') l w"
  by (simp add: runs_def wp_def proc_def split: flow.splits prod.splits)

lemma runs_mono:
  "runs blk m P \<Longrightarrow> (\<And>a s. P a s \<Longrightarrow> Q a s) \<Longrightarrow> runs blk m Q"
  by (auto simp: runs_def split: outcome.splits)

lemma runs_weaken_block: "runs False m Q \<Longrightarrow> runs blk m Q"
  by (auto simp: runs_def split: outcome.splits)

lemma runs_no_ub: "runs blk m Q \<Longrightarrow> m \<noteq> Undef u"
  by (auto simp: runs_def)

lemma runs_total: "runs False m Q \<Longrightarrow> \<exists>a s. m = Done a s \<and> Q a s"
  by (auto simp: runs_def split: outcome.splits)

lemma runs_Done_ex: "runs False m (\<lambda>a s. a = r \<and> Q s) \<Longrightarrow> \<exists>s. m = Done r s \<and> Q s"
  by (auto simp: runs_def split: outcome.splits)

lemma runs_DoneD: "runs blk m Q \<Longrightarrow> m = Done a s \<Longrightarrow> Q a s"
  by (simp add: runs_def)

lemma runs_conj: "runs blk m P \<Longrightarrow> runs blk m Q \<Longrightarrow> runs blk m (\<lambda>a s. P a s \<and> Q a s)"
  by (auto simp: runs_def split: outcome.splits)

text \<open>From a rule back to an equation: a body that only falls through has a value.\<close>

lemma wp_Val:
  "wp False m Q (\<lambda>_ _ _. False) (\<lambda>_ _ _. False) l w \<Longrightarrow> \<exists>a l' w'. m (l, w) = Val a (l', w') \<and> Q a l' w'"
  by (auto simp: wp_def split: flow.splits)

lemma wp_Bye:
  "wp False m (\<lambda>_ _ _. False) B (\<lambda>_ _ _. False) l w \<Longrightarrow> \<exists>st l' w'. m (l, w) = Bye st (l', w') \<and> B st l' w'"
  by (auto simp: wp_def split: flow.splits)

end
