(* ===== verification/Machine.thy ===== *)
theory Machine
  imports Cmd
begin

text \<open>
  The part of the C library and of the kernel the client uses, as operations on a \<open>world\<close>: the
  sockets with what each peer will send and how each \<open>send\<close> will fare, and the heap of \<open>malloc\<close>.

  Everything the environment decides is data of the world: in which pieces bytes arrive, whether
  and when a read fails, how much of a send the kernel takes, whether an allocation succeeds, what
  uninitialised memory holds. A theorem about all worlds is a theorem about all environments.
\<close>

section \<open>The world\<close>

text \<open>
  \<open>Data bs\<close>: a segment has arrived (an empty one says nothing); \<open>Eof\<close>: the peer has closed its
  side, and every later read sees it; \<open>Rcv_error\<close>: one read fails (a receive timeout, a reset).
  A queue that is exhausted stands for a peer that sends nothing more and does not close: a read then
  waits for ever, or fails with \<open>EAGAIN\<close> if a receive timeout is set on the socket (\<open>rcv_timeo\<close>).
\<close>

datatype rcv_event = Data "byte list" | Eof | Rcv_error

text \<open>How one \<open>send\<close> fares: the kernel takes at most so many bytes, or fails. Once the list is
  exhausted sends are complete.\<close>

datatype snd_event = Send_upto nat | Send_fail

record conn =
  inq :: "rcv_event list"
  sndq :: "snd_event list"
  outb :: "byte list"
  rcv_timeo :: bool

datatype sock_state = Unconnected | Bound u16 | Listening u16 | Connected conn

datatype ptr = Null | Ptr nat | Indet

record world =
  socks :: "int \<Rightarrow> sock_state option"
  heap :: "nat \<Rightarrow> byte list option"
  next_id :: nat
  mallocs :: "bool list"
  junk :: "nat \<Rightarrow> nat \<Rightarrow> byte"
  fds :: "int list"
  sockopts :: "int list"
  listeners :: "u32 \<Rightarrow> u16 \<Rightarrow> conn option"
  taken :: "u16 \<Rightarrow> bool"
  backlog :: "u16 \<Rightarrow> conn list"

section \<open>Sockets\<close>

text \<open>\<open>read\<close> on a non-empty buffer of \<open>n\<close> bytes: \<open>None\<close> when it never returns.\<close>

datatype read_result = Got "byte list" | Failed

fun read_event :: "nat \<Rightarrow> rcv_event list \<Rightarrow> (read_result \<times> rcv_event list) option" where
  "read_event n [] = None"
| "read_event n (Data bs # q) =
     (if bs = [] then read_event n q
      else if length bs \<le> n then Some (Got bs, q)
      else Some (Got (take n bs), Data (drop n bs) # q))"
| "read_event n (Eof # q) = Some (Got [], Eof # q)"
| "read_event n (Rcv_error # q) = Some (Failed, q)"

text \<open>Every network operation replaces the state of one connection.\<close>

definition put_conn :: "int \<Rightarrow> conn \<Rightarrow> world \<Rightarrow> world" where
  "put_conn sock c w = w\<lparr>socks := (socks w)(sock \<mapsto> Connected c)\<rparr>"

text \<open>
  \<open>read(sock, buf, n)\<close>: the return value with the bytes delivered. A descriptor that is not a
  connected socket gives -1 (\<open>EBADF\<close>, \<open>ENOTCONN\<close>).
\<close>

definition sys_read :: "int \<Rightarrow> nat \<Rightarrow> world \<Rightarrow> (int \<times> byte list, world) outcome" where
  "sys_read sock n w = (case socks w sock of
       Some (Connected c) \<Rightarrow>
         (if n = 0 then Done (0, []) w
          else (case read_event n (inq c) of
              None \<Rightarrow> if rcv_timeo c then Done (-1, []) w else Blocked
            | Some (Got bs, q) \<Rightarrow>
                Done (int (length bs), bs) (put_conn sock (c\<lparr>inq := q\<rparr>) w)
            | Some (Failed, q) \<Rightarrow>
                Done (-1, []) (put_conn sock (c\<lparr>inq := q\<rparr>) w)))
     | _ \<Rightarrow> Done (-1, []) w)"

text \<open>\<open>send(sock, buf, len, 0)\<close>: the number of bytes the kernel took, or -1.\<close>

definition sys_send :: "int \<Rightarrow> byte list \<Rightarrow> world \<Rightarrow> (int, world) outcome" where
  "sys_send sock bs w = (case socks w sock of
       Some (Connected c) \<Rightarrow>
         (case sndq c of
            [] \<Rightarrow> Done (int (length bs)) (put_conn sock (c\<lparr>outb := outb c @ bs\<rparr>) w)
          | Send_upto k # q \<Rightarrow> Done (int (min k (length bs)))
                   (put_conn sock (c\<lparr>outb := outb c @ take k bs, sndq := q\<rparr>) w)
          | Send_fail # q \<Rightarrow> Done (-1) (put_conn sock (c\<lparr>sndq := q\<rparr>) w))
     | _ \<Rightarrow> Done (-1) w)"

text \<open>\<open>close(fd)\<close>: the descriptor is gone; -1 when it was not open.\<close>

definition sys_close :: "int \<Rightarrow> world \<Rightarrow> (int, world) outcome" where
  "sys_close fd w = (if socks w fd = None then Done (-1) w
                     else Done 0 (w\<lparr>socks := (socks w)(fd := None)\<rparr>))"

text \<open>
  \<open>socket(AF_INET, SOCK_STREAM, 0)\<close> hands out the descriptors of the plan \<open>fds\<close>, -1 once it is empty.
  \<open>connect\<close> succeeds where a listener of that address and port would accept the connection.
\<close>

definition sys_socket :: "world \<Rightarrow> (int, world) outcome" where
  "sys_socket w = (case fds w of
       [] \<Rightarrow> Done (-1) w
     | fd # r \<Rightarrow> if fd < 0 then Done (-1) (w\<lparr>fds := r\<rparr>)
               else Done fd (w\<lparr>fds := r, socks := (socks w)(fd \<mapsto> Unconnected)\<rparr>))"

definition sys_connect :: "int \<Rightarrow> u32 \<Rightarrow> u16 \<Rightarrow> world \<Rightarrow> (int, world) outcome" where
  "sys_connect sock addr port w = (case socks w sock of
       Some Unconnected \<Rightarrow> (case listeners w addr port of
           None \<Rightarrow> Done (-1) w
         | Some c \<Rightarrow> Done 0 (put_conn sock c w))
     | _ \<Rightarrow> Done (-1) w)"

text \<open>The server side: \<open>bind\<close> fails on a port that is \<open>taken\<close>, \<open>accept\<close> waits for the connections of the
  \<open>backlog\<close> of its port and gives each a descriptor from the plan.\<close>

definition sys_bind :: "int \<Rightarrow> u16 \<Rightarrow> world \<Rightarrow> (int, world) outcome" where
  "sys_bind sock port w =
     (if socks w sock = Some Unconnected \<and> \<not> taken w port
      then Done 0 (w\<lparr>socks := (socks w)(sock \<mapsto> Bound port)\<rparr>) else Done (-1) w)"

definition sys_listen :: "int \<Rightarrow> world \<Rightarrow> (int, world) outcome" where
  "sys_listen sock w = (case socks w sock of
       Some (Bound port) \<Rightarrow> Done 0 (w\<lparr>socks := (socks w)(sock \<mapsto> Listening port)\<rparr>)
     | _ \<Rightarrow> Done (-1) w)"

definition sys_accept :: "int \<Rightarrow> world \<Rightarrow> (int, world) outcome" where
  "sys_accept sock w = (case socks w sock of
       Some (Listening port) \<Rightarrow>
         (case backlog w port of
            [] \<Rightarrow> Blocked
          | c # cs \<Rightarrow>
             (case fds w of
                [] \<Rightarrow> Done (-1) w
              | fd # r \<Rightarrow> if fd < 0 then Done (-1) (w\<lparr>fds := r\<rparr>)
                        else Done fd (put_conn fd c (w\<lparr>fds := r, backlog := (backlog w)(port := cs)\<rparr>))))
     | _ \<Rightarrow> Done (-1) w)"

text \<open>\<open>setsockopt\<close> with the three options the client sets; \<open>sockopts\<close> plans the results of the calls.
  Of the options only the receive timeout changes what the client can observe.\<close>

datatype sockopt = Tcp_nodelay | So_rcvtimeo | So_sndtimeo

definition sys_setsockopt :: "int \<Rightarrow> sockopt \<Rightarrow> world \<Rightarrow> (int, world) outcome" where
  "sys_setsockopt sock opt w =
     (let w' = w\<lparr>sockopts := tl (sockopts w)\<rparr> in
      if sockopts w \<noteq> [] \<and> hd (sockopts w) < 0 then Done (-1) w'
      else case socks w sock of
          Some (Connected c) \<Rightarrow>
            Done 0 (if opt = So_rcvtimeo then put_conn sock (c\<lparr>rcv_timeo := True\<rparr>) w' else w')
        | _ \<Rightarrow> Done (-1) w')"

text \<open>\<open>inet_pton(AF_INET, s, &addr)\<close>: a dotted quad of decimal octets without leading zeros; the result is
  1 and the address, or 0 and the address unchanged.\<close>

definition is_digit :: "byte \<Rightarrow> bool" where
  "is_digit b \<longleftrightarrow> 48 \<le> unat b \<and> unat b \<le> 57"

definition digits_value :: "byte list \<Rightarrow> nat" where
  "digits_value s = foldl (\<lambda>n b. 10 * n + (unat b - 48)) 0 s"

definition parse_octet :: "byte list \<Rightarrow> nat option" where
  "parse_octet s =
     (if s = [] \<or> 3 < length s \<or> \<not> list_all is_digit s \<or> (hd s = 48 \<and> 1 < length s) then None
      else if digits_value s \<le> 255 then Some (digits_value s) else None)"

fun split_on :: "byte \<Rightarrow> byte list \<Rightarrow> byte list list" where
  "split_on d [] = [[]]"
| "split_on d (b # bs) = (if b = d then [] # split_on d bs
     else case split_on d bs of [] \<Rightarrow> [[b]] | t # ts \<Rightarrow> (b # t) # ts)"

definition parse_ipv4 :: "cstr \<Rightarrow> u32 option" where
  "parse_ipv4 s = (case map parse_octet (split_on 46 s) of
       [Some a, Some b, Some c, Some d] \<Rightarrow> Some (of_nat (((a * 256 + b) * 256 + c) * 256 + d))
     | _ \<Rightarrow> None)"

definition inet_pton :: "cstr \<Rightarrow> u32 \<Rightarrow> int \<times> u32" where
  "inet_pton s addr = (case parse_ipv4 s of Some a \<Rightarrow> (1, a) | None \<Rightarrow> (0, addr))"

text \<open>\<open>atoi\<close>, as the C library has it: white space, a sign, digits; through \<open>long\<close>, then cut to \<open>int\<close>.\<close>

definition is_space :: "byte \<Rightarrow> bool" where
  "is_space b \<longleftrightarrow> b = 32 \<or> 9 \<le> unat b \<and> unat b \<le> 13"

definition atoi :: "cstr \<Rightarrow> int" where
  "atoi s =
     (let t = dropWhile is_space s;
          neg = (t \<noteq> [] \<and> hd t = 45);
          u = (if t \<noteq> [] \<and> hd t \<in> {43, 45} then tl t else t);
          v = int (digits_value (takeWhile is_digit u));
          l = max (- (2 ^ 63)) (min (2 ^ 63 - 1) (if neg then - v else v))
      in sint (word_of_int l :: u32))"

section \<open>The heap\<close>

text \<open>The allocator never grants more than \<open>PTRDIFF_MAX\<close> bytes.\<close>

definition ptrdiff_max :: nat where
  "ptrdiff_max = 2 ^ 63 - 1"

definition sys_malloc :: "size_t \<Rightarrow> world \<Rightarrow> (ptr, world) outcome" where
  "sys_malloc n w =
     (if ptrdiff_max < unat n \<or> (mallocs w \<noteq> [] \<and> \<not> hd (mallocs w))
      then Done Null (w\<lparr>mallocs := tl (mallocs w)\<rparr>)
      else Done (Ptr (next_id w))
             (w\<lparr>mallocs := tl (mallocs w), next_id := Suc (next_id w),
                heap := (heap w)(next_id w \<mapsto> map (junk w (next_id w)) [0..<unat n])\<rparr>))"

text \<open>\<open>posix_memalign(&p, 16, n)\<close> with \<open>p\<close> null before: the status (\<open>ENOMEM\<close> is 12, not negative)
  and the value of \<open>p\<close> afterwards.\<close>

definition sys_memalign :: "size_t \<Rightarrow> world \<Rightarrow> (int \<times> ptr, world) outcome" where
  "sys_memalign n w =
     obind (sys_malloc n w) (\<lambda>p w'. Done (if p = Null then 12 else 0, p) w')"

definition sys_free :: "ptr \<Rightarrow> world \<Rightarrow> (unit, world) outcome" where
  "sys_free p w = (case p of
       Null \<Rightarrow> Done () w
     | Indet \<Rightarrow> Undef Uninit_use
     | Ptr i \<Rightarrow> (if heap w i = None then Undef Bad_free
                 else Done () (w\<lparr>heap := (heap w)(i := None)\<rparr>)))"

text \<open>The macro \<open>free_if_non_null\<close> on several pointers in turn; it also nulls the variables,
  which the callers do on their locals.\<close>

fun free_all :: "ptr list \<Rightarrow> world \<Rightarrow> (unit, world) outcome" where
  "free_all [] w = Done () w"
| "free_all (p # ps) w = obind (sys_free p w) (\<lambda>_ w'. free_all ps w')"

text \<open>Freeing these pointers in turn takes the blocks \<open>m'\<close> to \<open>m\<close>.\<close>

fun frees :: "ptr list \<Rightarrow> (nat \<Rightarrow> byte list option) \<Rightarrow> (nat \<Rightarrow> byte list option) \<Rightarrow> bool" where
  "frees [] m' m \<longleftrightarrow> m' = m"
| "frees (p # ps) m' m \<longleftrightarrow> (case p of
       Null \<Rightarrow> frees ps m' m
     | Indet \<Rightarrow> False
     | Ptr i \<Rightarrow> m' i \<noteq> None \<and> frees ps (m'(i := None)) m)"

text \<open>Stores and loads through a pointer, with the bounds of the object pointed to.\<close>

definition store :: "ptr \<Rightarrow> nat \<Rightarrow> byte list \<Rightarrow> world \<Rightarrow> (unit, world) outcome" where
  "store p off bs w = (case p of
       Null \<Rightarrow> Undef Null_deref
     | Indet \<Rightarrow> Undef Uninit_use
     | Ptr i \<Rightarrow> (case heap w i of
           None \<Rightarrow> Undef Out_of_bounds
         | Some blk \<Rightarrow>
             (if off + length bs \<le> length blk
              then Done () (w\<lparr>heap := (heap w)(i \<mapsto>
                     take off blk @ bs @ drop (off + length bs) blk)\<rparr>)
              else Undef Out_of_bounds)))"

definition load :: "ptr \<Rightarrow> nat \<Rightarrow> nat \<Rightarrow> world \<Rightarrow> (byte list, world) outcome" where
  "load p off n w = (case p of
       Null \<Rightarrow> Undef Null_deref
     | Indet \<Rightarrow> Undef Uninit_use
     | Ptr i \<Rightarrow> (case heap w i of
           None \<Rightarrow> Undef Out_of_bounds
         | Some blk \<Rightarrow> (if off + n \<le> length blk then Done (take n (drop off blk)) w
                        else Undef Out_of_bounds)))"

definition load_u32 :: "ptr \<Rightarrow> nat \<Rightarrow> world \<Rightarrow> (u32, world) outcome" where
  "load_u32 p i w = obind (load p (4 * i) 4 w) (\<lambda>bs w'. Done (le_dec bs) w')"

text \<open>A pointer read as a C string: reading past the object without meeting a NUL is undefined.\<close>

definition load_str :: "ptr \<Rightarrow> world \<Rightarrow> (cstr, world) outcome" where
  "load_str p w = (case p of
       Null \<Rightarrow> Undef Null_deref
     | Indet \<Rightarrow> Undef Uninit_use
     | Ptr i \<Rightarrow> (case heap w i of
           None \<Rightarrow> Undef Out_of_bounds
         | Some blk \<Rightarrow> (if 0 \<in> set blk then Done (takeWhile (\<lambda>b. b \<noteq> 0) blk) w
                        else Undef Unterminated)))"


section \<open>The stream a peer sends\<close>

text \<open>
  What a queue of events means to a client that does not care how bytes are grouped: the bytes
  it delivers before the first end or error, and what comes after them. \<open>drain n\<close> is the queue
  left once \<open>n\<close> of these bytes have been read.
\<close>

fun avail :: "rcv_event list \<Rightarrow> byte list" where
  "avail (Data bs # q) = bs @ avail q"
| "avail _ = []"

datatype stop = Silent | Closed | Broken

fun stop_of :: "rcv_event list \<Rightarrow> stop" where
  "stop_of [] = Silent"
| "stop_of (Data bs # q) = stop_of q"
| "stop_of (Eof # q) = Closed"
| "stop_of (Rcv_error # q) = Broken"

fun drain :: "nat \<Rightarrow> rcv_event list \<Rightarrow> rcv_event list" where
  "drain 0 q = q"
| "drain (Suc n) (Data bs # q) =
     (if length bs \<le> Suc n then drain (Suc n - length bs) q else Data (drop (Suc n) bs) # q)"
| "drain (Suc n) q = q"

lemma drain_0 [simp]: "drain 0 q = q" by simp

lemma drain_Data:
  "0 < n \<Longrightarrow> drain n (Data bs # q) =
     (if length bs \<le> n then drain (n - length bs) q else Data (drop n bs) # q)"
  by (cases n) auto

lemma drain_other [simp]: "drain n [] = []" "drain n (Eof # q) = Eof # q"
  "drain n (Rcv_error # q) = Rcv_error # q"
  by (cases n; simp)+

lemma avail_drain [simp]: "avail (drain n q) = drop n (avail q)"
  by (induction n q rule: drain.induct) auto

lemma stop_of_drain [simp]: "stop_of (drain n q) = stop_of q"
  by (induction n q rule: drain.induct) auto

lemma drain_drain: "drain m (drain n q) = drain (n + m) q"
proof (induction n q rule: drain.induct)
  case (2 n bs q)
  then show ?case
    by (cases m) (auto simp: drain_Data Suc_diff_le add.commute)
qed auto

lemma Eof_in_drain: "Eof \<in> set q \<Longrightarrow> Eof \<in> set (drain n q)"
  by (induction n q rule: drain.induct) auto

text \<open>One read: some prefix of what is available, or what the end of the stream says.\<close>

lemma read_event_avail:
  "0 < n \<Longrightarrow> avail q \<noteq> [] \<Longrightarrow>
   \<exists>k>0. k \<le> n \<and> k \<le> length (avail q) \<and> read_event n q = Some (Got (take k (avail q)), drain k q)"
proof (induction n q rule: read_event.induct)
  case (2 n bs q)
  show ?case
  proof (cases "bs = []")
    case True
    with 2 obtain k where "0 < k" "k \<le> n" "k \<le> length (avail q)"
      "read_event n q = Some (Got (take k (avail q)), drain k q)" by auto
    with True show ?thesis by (intro exI [of _ k]) (simp add: drain_Data)
  next
    case ne: False
    show ?thesis
    proof (cases "length bs \<le> n")
      case True
      with ne show ?thesis by (intro exI [of _ "length bs"]) (simp add: drain_Data)
    next
      case False
      with ne "2.prems" show ?thesis by (intro exI [of _ n]) (simp add: drain_Data)
    qed
  qed
qed auto

lemma read_event_stopped:
  "avail q = [] \<Longrightarrow> read_event n q =
     (case stop_of q of Silent \<Rightarrow> None | Closed \<Rightarrow> Some (Got [], dropWhile (\<lambda>e. e = Data []) q)
      | Broken \<Rightarrow> Some (Failed, tl (dropWhile (\<lambda>e. e = Data []) q)))"
  by (induction n q rule: read_event.induct) (auto split: stop.splits)

lemma read_event_None: "0 < n \<Longrightarrow> read_event n q = None \<longleftrightarrow> avail q = [] \<and> stop_of q = Silent"
  using read_event_avail [of n q]
  by (cases "avail q = []") (auto simp: read_event_stopped split: stop.splits)

lemma read_event_length: "read_event n q = Some (Got bs, q') \<Longrightarrow> length bs \<le> n"
  by (induction n q rule: read_event.induct) (auto split: if_splits)

lemma read_event_Eof: "Eof \<in> set q \<Longrightarrow> \<exists>r q'. read_event n q = Some (r, q') \<and> Eof \<in> set q'"
  by (induction n q rule: read_event.induct) auto

section \<open>Laws of the machine\<close>

lemma put_conn_simps [simp]:
  "socks (put_conn sock c w) = (socks w)(sock \<mapsto> Connected c)"
  "heap (put_conn sock c w) = heap w"
  "next_id (put_conn sock c w) = next_id w"
  "mallocs (put_conn sock c w) = mallocs w"
  "junk (put_conn sock c w) = junk w"
  "put_conn sock c (put_conn sock c' w) = put_conn sock c w"
  by (simp_all add: put_conn_def)

lemma put_conn_heap [simp]:
  "put_conn sock c (w\<lparr>heap := h\<rparr>) = (put_conn sock c w)\<lparr>heap := h\<rparr>"
  "put_conn sock c (w\<lparr>next_id := n\<rparr>) = (put_conn sock c w)\<lparr>next_id := n\<rparr>"
  "put_conn sock c (w\<lparr>mallocs := ms\<rparr>) = (put_conn sock c w)\<lparr>mallocs := ms\<rparr>"
  by (simp_all add: put_conn_def)

lemma put_conn_same: "socks w sock = Some (Connected c) \<Longrightarrow> put_conn sock c w = w"
  by (simp add: put_conn_def fun_upd_idem)

text \<open>Every read on this descriptor returns: it is no connected socket, its peer closes, or it has a
  receive timeout.\<close>

definition closes :: "int \<Rightarrow> world \<Rightarrow> bool" where
  "closes sock w = (case socks w sock of Some (Connected c) \<Rightarrow> Eof \<in> set (inq c) \<or> rcv_timeo c | _ \<Rightarrow> True)"

text \<open>How the stream of a connection ends for its reader: a silence under a timeout is an error.\<close>

definition stop_at :: "conn \<Rightarrow> stop" where
  "stop_at c = (if stop_of (inq c) = Silent \<and> rcv_timeo c then Broken else stop_of (inq c))"

text \<open>Every allocated block has a number below the next one.\<close>

definition wf_heap :: "world \<Rightarrow> bool" where
  "wf_heap w \<longleftrightarrow> (\<forall>i. next_id w \<le> i \<longrightarrow> heap w i = None)"

text \<open>
  \<open>since sock w0 m w\<close>: what the code may rely on at \<open>w\<close> when it entered its function at \<open>w0\<close>. The
  blocks allocated since then and still live are exactly those of \<open>m\<close>, with their contents; older
  blocks are untouched; of the sockets only \<open>sock\<close> has changed, and if its peer was to close it
  still is. With \<open>m\<close> empty this says that no memory has been leaked and none has been freed.
\<close>

type_synonym blocks = "nat \<Rightarrow> byte list option"

definition since :: "int \<Rightarrow> world \<Rightarrow> blocks \<Rightarrow> world \<Rightarrow> bool" where
  "since sock w0 m w \<longleftrightarrow>
     wf_heap w \<and> next_id w0 \<le> next_id w \<and>
     (\<forall>i < next_id w0. heap w i = heap w0 i \<and> m i = None) \<and>
     (\<forall>i \<ge> next_id w0. heap w i = m i) \<and>
     (closes sock w0 \<longrightarrow> closes sock w) \<and> (\<forall>s. s \<noteq> sock \<longrightarrow> socks w s = socks w0 s)"

lemma since_start: "wf_heap w \<Longrightarrow> since sock w Map.empty w"
  by (simp add: since_def wf_heap_def)

lemma since_heap: "wf_heap w0 \<Longrightarrow> since sock w0 Map.empty w \<Longrightarrow> heap w = heap w0"
proof
  fix i
  assume "wf_heap w0" and "since sock w0 Map.empty w"
  then show "heap w i = heap w0 i"
    by (cases "i < next_id w0") (simp_all add: since_def wf_heap_def)
qed

lemma since_heap_one:
  "wf_heap w0 \<Longrightarrow> since sock w0 [i \<mapsto> b] w \<Longrightarrow> heap w0 i = None \<and> heap w = (heap w0)(i \<mapsto> b)"
proof (intro conjI ext)
  assume w0: "wf_heap w0" and s: "since sock w0 [i \<mapsto> b] w"
  have "\<not> i < next_id w0" using s by (force simp: since_def)
  then have i: "next_id w0 \<le> i" by simp
  with w0 show "heap w0 i = None" by (simp add: wf_heap_def)
  show "heap w j = ((heap w0)(i \<mapsto> b)) j" for j
    using w0 s i by (cases "j < next_id w0") (auto simp: since_def wf_heap_def)
qed

lemma since_one_self:
  assumes "wf_heap w" "since sock w [i \<mapsto> b] w'"
  shows "heap w i = None \<and> heap w' = (heap w)(i \<mapsto> b)"
  using since_heap_one [OF assms] by simp

lemma since_socks: "since sock w0 m w \<Longrightarrow> s \<noteq> sock \<Longrightarrow> socks w s = socks w0 s"
  by (simp add: since_def)

lemma since_closes: "since sock w0 m w \<Longrightarrow> closes sock w0 \<Longrightarrow> closes sock w"
  by (simp add: since_def)

lemma since_wf: "since sock w0 m w \<Longrightarrow> wf_heap w"
  by (simp add: since_def)

lemma since_block: "since sock w0 m w \<Longrightarrow> m i = Some b \<Longrightarrow> heap w i = Some b"
  by (cases "i < next_id w0") (auto simp: since_def not_less)

text \<open>The peer's stream is \<open>bs\<close>, everything sent so far is \<open>out\<close>, and the environment is at its
  best: sends are complete and allocations succeed.\<close>

definition pending :: "int \<Rightarrow> world \<Rightarrow> byte list option" where
  "pending sock w = (case socks w sock of Some (Connected c) \<Rightarrow> Some (avail (inq c)) | _ \<Rightarrow> None)"

definition sent :: "int \<Rightarrow> world \<Rightarrow> byte list" where
  "sent sock w = (case socks w sock of Some (Connected c) \<Rightarrow> outb c | _ \<Rightarrow> [])"

definition healthy :: "int \<Rightarrow> world \<Rightarrow> bool" where
  "healthy sock w \<longleftrightarrow> mallocs w = [] \<and>
     (case socks w sock of Some (Connected c) \<Rightarrow> sndq c = [] | _ \<Rightarrow> False)"

definition online :: "int \<Rightarrow> world \<Rightarrow> blocks \<Rightarrow> byte list \<Rightarrow> byte list \<Rightarrow> world \<Rightarrow> bool" where
  "online sock w0 m bs out w \<longleftrightarrow>
     since sock w0 m w \<and> healthy sock w \<and> pending sock w = Some bs \<and> sent sock w = out"

lemma online_start:
  "wf_heap w \<Longrightarrow> healthy sock w \<Longrightarrow> pending sock w = Some bs \<Longrightarrow>
   online sock w Map.empty bs (sent sock w) w"
  by (simp add: online_def since_start)

lemma online_since: "online sock w0 m bs out w \<Longrightarrow> since sock w0 m w"
  by (simp add: online_def)

lemma onlineE:
  assumes "online sock w0 m bs out w"
  obtains c where "socks w sock = Some (Connected c)" "avail (inq c) = bs" "outb c = out"
    "sndq c = []" "mallocs w = []" "since sock w0 m w"
  using assms
  by (auto simp: online_def healthy_def pending_def sent_def split: option.splits sock_state.splits)

lemma online_conn:
  "since sock w0 m w \<Longrightarrow> mallocs w = [] \<Longrightarrow> socks w sock = Some (Connected c) \<Longrightarrow> sndq c = [] \<Longrightarrow>
   avail (inq c) = bs \<Longrightarrow> outb c = out \<Longrightarrow> online sock w0 m bs out w"
  by (simp add: online_def healthy_def pending_def sent_def)

section \<open>Rules for calls\<close>

text \<open>
  Collection \<open>vcg\<close>: rules for any environment. Collection \<open>vcg_online\<close>: rules for an environment
  at its best, with the exact bytes read and written.
\<close>

named_theorems vcg "verification conditions of calls"
named_theorems vcg_online "verification conditions of calls, healthy environment"

lemma since_net:
  assumes "since sock w0 m w" and "closes sock w \<Longrightarrow> Eof \<in> set (inq c) \<or> rcv_timeo c"
  shows "since sock w0 m (put_conn sock c w)"
  using assms by (auto simp: since_def wf_heap_def closes_def put_conn_def)

lemma closes_conn: "socks w sock = Some (Connected c) \<Longrightarrow> closes sock w = (Eof \<in> set (inq c) \<or> rcv_timeo c)"
  by (simp add: closes_def)

lemma runs_sys_read [vcg]:
  assumes s: "since sock w0 m w" and b: "\<not> blk \<longrightarrow> closes sock w0"
    and Q: "\<And>r bs w'. since sock w0 m w' \<Longrightarrow>
      r = -1 \<and> bs = [] \<or> r = int (length bs) \<and> length bs \<le> n \<Longrightarrow> Q (r, bs) w'"
  shows "runs blk (sys_read sock n w) Q"
proof (cases "\<exists>c. socks w sock = Some (Connected c)")
  case False
  then have "sys_read sock n w = Done (-1, []) w"
    by (auto simp: sys_read_def split: option.splits sock_state.splits)
  with s Q show ?thesis by simp
next
  case True
  then obtain c where c: "socks w sock = Some (Connected c)" by blast
  have b': "\<not> blk \<longrightarrow> Eof \<in> set (inq c) \<or> rcv_timeo c"
    using b since_closes [OF s] closes_conn [OF c] by blast
  show ?thesis
  proof (cases "n = 0 \<or> read_event n (inq c) = None")
    case True
    with c b' s Q read_event_Eof [of "inq c" n] show ?thesis
      by (auto simp: sys_read_def runs_def)
  next
    case False
    then obtain r q where rq: "0 < n" "read_event n (inq c) = Some (r, q)" by auto
    have "since sock w0 m (put_conn sock (c\<lparr>inq := q\<rparr>) w)"
      using rq read_event_Eof [of "inq c" n] by (intro since_net [OF s]) (auto simp: closes_conn [OF c])
    with c rq Q show ?thesis
      by (cases r) (auto simp: sys_read_def dest: read_event_length)
  qed
qed

lemma runs_sys_send [vcg]:
  assumes s: "since sock w0 m w"
    and Q: "\<And>r w'. since sock w0 m w' \<Longrightarrow> r = -1 \<or> 0 \<le> r \<and> r \<le> int (length bs) \<Longrightarrow> Q r w'"
  shows "runs blk (sys_send sock bs w) Q"
proof (cases "\<exists>c. socks w sock = Some (Connected c)")
  case False
  then have "sys_send sock bs w = Done (-1) w"
    by (auto simp: sys_send_def split: option.splits sock_state.splits)
  with s Q show ?thesis by simp
next
  case True
  then obtain c where c: "socks w sock = Some (Connected c)" by blast
  then show ?thesis
    by (auto simp: sys_send_def closes_conn intro!: Q since_net [OF s]
        split: list.splits snd_event.splits)
qed

lemma runs_sys_send_online [vcg_online]:
  assumes o: "online sock w0 m bs out w"
    and Q: "\<And>w'. online sock w0 m bs (out @ xs) w' \<Longrightarrow> Q (int (length xs)) w'"
  shows "runs blk (sys_send sock xs w) Q"
proof -
  from o obtain c where c: "socks w sock = Some (Connected c)" "avail (inq c) = bs" "outb c = out"
    "sndq c = []" "mallocs w = []" "since sock w0 m w" by (rule onlineE)
  have "online sock w0 m bs (out @ xs) (put_conn sock (c\<lparr>outb := outb c @ xs\<rparr>) w)"
    by (rule online_conn [where c = "c\<lparr>outb := outb c @ xs\<rparr>"])
      (use c in \<open>auto intro!: since_net simp: closes_conn\<close>)
  with c Q show ?thesis by (simp add: sys_send_def)
qed

lemma since_alloc:
  "since sock w0 m w \<Longrightarrow> since sock w0 (m(next_id w \<mapsto> b))
     (w\<lparr>mallocs := ms, next_id := Suc (next_id w), heap := (heap w)(next_id w \<mapsto> b)\<rparr>)"
  by (auto simp: since_def wf_heap_def closes_def)

lemma since_fresh: "since sock w0 m w \<Longrightarrow> m (next_id w) = None"
  by (simp add: since_def wf_heap_def) (metis order_refl)

lemma since_mallocs: "since sock w0 m w \<Longrightarrow> since sock w0 m (w\<lparr>mallocs := ms\<rparr>)"
  by (simp add: since_def wf_heap_def closes_def)

lemma runs_sys_malloc [vcg]:
  assumes s: "since sock w0 m w"
    and N: "\<And>w'. since sock w0 m w' \<Longrightarrow> Q Null w'"
    and P: "\<And>w' i b. since sock w0 (m(i \<mapsto> b)) w' \<Longrightarrow> m i = None \<Longrightarrow> length b = unat n
      \<Longrightarrow> unat n \<le> ptrdiff_max \<Longrightarrow> Q (Ptr i) w'"
  shows "runs blk (sys_malloc n w) Q"
  using since_alloc [OF s, of "map (junk w (next_id w)) [0..<unat n]" "tl (mallocs w)"]
    since_fresh [OF s]
  by (auto simp: sys_malloc_def intro!: N P since_mallocs [OF s])

lemma runs_sys_memalign [vcg]:
  assumes s: "since sock w0 m w"
    and N: "\<And>w'. since sock w0 m w' \<Longrightarrow> Q (12, Null) w'"
    and P: "\<And>w' i b. since sock w0 (m(i \<mapsto> b)) w' \<Longrightarrow> m i = None \<Longrightarrow> length b = unat n
      \<Longrightarrow> unat n \<le> ptrdiff_max \<Longrightarrow> Q (0, Ptr i) w'"
  shows "runs blk (sys_memalign n w) Q"
  unfolding sys_memalign_def runs_obind by (rule runs_sys_malloc [OF s]) (simp_all add: N P)

lemma runs_sys_malloc_online [vcg_online]:
  assumes o: "online sock w0 m bs out w" and n: "unat n \<le> ptrdiff_max"
    and P: "\<And>w' i b. online sock w0 (m(i \<mapsto> b)) bs out w' \<Longrightarrow> m i = None \<Longrightarrow> length b = unat n
      \<Longrightarrow> Q (Ptr i) w'"
  shows "runs blk (sys_malloc n w) Q"
proof -
  from o obtain c where c: "socks w sock = Some (Connected c)" "avail (inq c) = bs" "outb c = out"
    "sndq c = []" "mallocs w = []" "since sock w0 m w" by (rule onlineE)
  let ?b = "map (junk w (next_id w)) [0..<unat n]"
  have "online sock w0 (m(next_id w \<mapsto> ?b)) bs out
    (w\<lparr>mallocs := [], next_id := Suc (next_id w), heap := (heap w)(next_id w \<mapsto> ?b)\<rparr>)"
    by (rule online_conn) (use c since_alloc [OF c(6)] in auto)
  with c n P since_fresh [OF c(6)] show ?thesis by (simp add: sys_malloc_def)
qed

lemma runs_sys_memalign_online [vcg_online]:
  assumes o: "online sock w0 m bs out w" and n: "unat n \<le> ptrdiff_max"
    and P: "\<And>w' i b. online sock w0 (m(i \<mapsto> b)) bs out w' \<Longrightarrow> m i = None \<Longrightarrow> length b = unat n
      \<Longrightarrow> Q (0, Ptr i) w'"
  shows "runs blk (sys_memalign n w) Q"
  unfolding sys_memalign_def runs_obind by (rule runs_sys_malloc_online [OF o n]) (simp add: P)

lemma runs_free_Null [simp, wp_simps]: "runs blk (sys_free Null w) Q = Q () w"
  by (simp add: sys_free_def)

lemma since_heap_upd:
  "since sock w0 m w \<Longrightarrow> m i \<noteq> None \<Longrightarrow> since sock w0 (m(i := x)) (w\<lparr>heap := (heap w)(i := x)\<rparr>)"
  by (auto simp: since_def wf_heap_def closes_def)

lemma online_heap_upd:
  "online sock w0 m bs out w \<Longrightarrow> m i \<noteq> None \<Longrightarrow>
   online sock w0 (m(i := x)) bs out (w\<lparr>heap := (heap w)(i := x)\<rparr>)"
  by (simp add: online_def since_heap_upd healthy_def pending_def sent_def)

lemma runs_free_Ptr [vcg]:
  assumes s: "since sock w0 m w" and i: "m i \<noteq> None"
    and Q: "\<And>w'. since sock w0 (m(i := None)) w' \<Longrightarrow> Q () w'"
  shows "runs blk (sys_free (Ptr i) w) Q"
  using since_heap_upd [OF s i, of None] since_block [OF s] i Q by (auto simp: sys_free_def)

lemma runs_free_Ptr_online [vcg_online]:
  assumes o: "online sock w0 m bs out w" and i: "m i \<noteq> None"
    and Q: "\<And>w'. online sock w0 (m(i := None)) bs out w' \<Longrightarrow> Q () w'"
  shows "runs blk (sys_free (Ptr i) w) Q"
  using online_heap_upd [OF o i, of None] since_block [OF online_since [OF o]] i Q
  by (auto simp: sys_free_def)

lemma runs_store [vcg]:
  assumes s: "since sock w0 m w" and i: "m i = Some b" and b: "off + length bs \<le> length b"
    and Q: "\<And>w'. since sock w0 (m(i \<mapsto> take off b @ bs @ drop (off + length bs) b)) w' \<Longrightarrow> Q () w'"
  shows "runs blk (store (Ptr i) off bs w) Q"
  using since_heap_upd [OF s, of i] since_block [OF s i] i b Q by (simp add: store_def)

lemma runs_store_online [vcg_online]:
  assumes o: "online sock w0 m xs out w" and i: "m i = Some b" and b: "off + length bs \<le> length b"
    and Q: "\<And>w'. online sock w0 (m(i \<mapsto> take off b @ bs @ drop (off + length bs) b)) xs out w' \<Longrightarrow> Q () w'"
  shows "runs blk (store (Ptr i) off bs w) Q"
  using online_heap_upd [OF o, of i] since_block [OF online_since [OF o] i] i b Q
  by (simp add: store_def)

lemma runs_load [vcg]:
  assumes s: "since sock w0 m w" and i: "m i = Some b" and b: "off + k \<le> length b"
    and Q: "Q (take k (drop off b)) w"
  shows "runs blk (load (Ptr i) off k w) Q"
  using since_block [OF s i] b Q by (simp add: load_def)

lemma runs_load_u32 [vcg]:
  assumes s: "since sock w0 m w" and i: "m i = Some b" and b: "4 * j + 4 \<le> length b"
    and Q: "Q (u32_at b j) w"
  shows "runs blk (load_u32 (Ptr i) j w) Q"
  unfolding load_u32_def runs_obind by (rule runs_load [OF s i b]) (use Q in \<open>simp add: u32_at_def\<close>)

lemma runs_load_str [vcg]:
  assumes s: "since sock w0 m w" and i: "m i = Some b" and z: "0 \<in> set b"
    and Q: "Q (takeWhile (\<lambda>x. x \<noteq> 0) b) w"
  shows "runs blk (load_str (Ptr i) w) Q"
  using since_block [OF s i] z Q by (simp add: load_str_def)

lemmas runs_load_online [vcg_online] = runs_load [OF online_since]
lemmas runs_load_u32_online [vcg_online] = runs_load_u32 [OF online_since]
lemmas runs_load_str_online [vcg_online] = runs_load_str [OF online_since]


section \<open>The allocator as an interface\<close>

text \<open>
  What code that only allocates, writes and frees may rely on, for an assertion \<open>A\<close> about the
  blocks it owns; \<open>faulty\<close> says whether allocations may fail. Code is verified against this
  interface once and holds for any environment and, with more precision, for a healthy one.
\<close>

locale allocator =
  fixes A :: "blocks \<Rightarrow> world \<Rightarrow> bool"
    and faulty :: bool
  assumes malloc: "A m w \<Longrightarrow> faulty \<or> unat n \<le> ptrdiff_max \<Longrightarrow>
      (\<And>w'. faulty \<Longrightarrow> A m w' \<Longrightarrow> Q Null w') \<Longrightarrow>
      (\<And>w' i b. A (m(i \<mapsto> b)) w' \<Longrightarrow> m i = None \<Longrightarrow> length b = unat n \<Longrightarrow> Q (Ptr i) w') \<Longrightarrow>
      runs blk (sys_malloc n w) Q"
    and free: "A m w \<Longrightarrow> m i \<noteq> None \<Longrightarrow> (\<And>w'. A (m(i := None)) w' \<Longrightarrow> R () w') \<Longrightarrow>
      runs blk (sys_free (Ptr i) w) R"
    and store: "A m w \<Longrightarrow> m i = Some b \<Longrightarrow> off + length bs \<le> length b \<Longrightarrow>
      (\<And>w'. A (m(i \<mapsto> take off b @ bs @ drop (off + length bs) b)) w' \<Longrightarrow> R () w') \<Longrightarrow>
      runs blk (store (Ptr i) off bs w) R"
    and load_str: "A m w \<Longrightarrow> m i = Some b \<Longrightarrow> 0 \<in> set b \<Longrightarrow>
      S (takeWhile (\<lambda>x. x \<noteq> 0) b) w \<Longrightarrow> runs blk (load_str (Ptr i) w) S"
    and load: "A m w \<Longrightarrow> m i = Some b \<Longrightarrow> off + k \<le> length b \<Longrightarrow> S (take k (drop off b)) w \<Longrightarrow>
      runs blk (load (Ptr i) off k w) S"
begin

lemma load_u32:
  assumes "A m w" "m i = Some b" "4 * j + 4 \<le> length b" and Q: "Q (u32_at b j) w"
  shows "runs blk (load_u32 (Ptr i) j w) Q"
  unfolding load_u32_def runs_obind
  by (rule load [OF assms(1-3)]) (use Q in \<open>simp add: u32_at_def\<close>)

lemma memalign:
  assumes "A m w" "faulty \<or> unat n \<le> ptrdiff_max"
    and "\<And>w'. faulty \<Longrightarrow> A m w' \<Longrightarrow> Q (12, Null) w'"
    and "\<And>w' i b. A (m(i \<mapsto> b)) w' \<Longrightarrow> m i = None \<Longrightarrow> length b = unat n \<Longrightarrow> Q (0, Ptr i) w'"
  shows "runs blk (sys_memalign n w) Q"
  unfolding sys_memalign_def runs_obind by (rule malloc [OF assms(1,2)]) (simp_all add: assms)

text \<open>A block that is allocated, written in full and read back as a string.\<close>

lemma free_one:
  "A m w \<Longrightarrow> m i = Some b \<Longrightarrow> (\<And>w'. A (m(i := None)) w' \<Longrightarrow> R () w') \<Longrightarrow>
   runs blk (free_all [Ptr i] w) R"
  by (auto simp: runs_obind intro!: free)

lemma free_pair:
  assumes "A (m(i \<mapsto> b, j \<mapsto> d)) w" "i \<noteq> j" "m i = None" "m j = None"
    and R: "\<And>w'. A m w' \<Longrightarrow> R () w'"
  shows "runs blk (free_all [Ptr i, Ptr j] w) R" "runs blk (free_all [Ptr j, Ptr i] w) R"
proof -
  have 1: "(m(i \<mapsto> b, j \<mapsto> d))(i := None) = m(j \<mapsto> d)" "(m(i \<mapsto> b, j \<mapsto> d))(j := None) = m(i \<mapsto> b)"
    "(m(i \<mapsto> b))(i := None) = m" "(m(j \<mapsto> d))(j := None) = m"
    using assms by auto
  show "runs blk (free_all [Ptr i, Ptr j] w) R" "runs blk (free_all [Ptr j, Ptr i] w) R"
    unfolding free_all.simps runs_obind runs_Done
    by (rule free [OF assms(1)], use assms in simp, simp only: 1, rule free, assumption, simp,
        use assms in \<open>simp add: R\<close>)+
qed

lemma overwrite:
  assumes "A (m(i \<mapsto> b)) w" "b = x @ y @ z" "length x = off" "length y = length bs"
    and R: "\<And>w'. A (m(i \<mapsto> x @ bs @ z)) w' \<Longrightarrow> R () w'"
  shows "runs blk (store (Ptr i) off bs w) R"
  by (rule store [OF assms(1)]) (use assms(2-4) R in \<open>auto simp flip: append_assoc\<close>)

lemma free_frees:
  "A m' w \<Longrightarrow> frees ps m' m \<Longrightarrow> (\<And>w'. A m w' \<Longrightarrow> R () w') \<Longrightarrow> runs blk (free_all ps w) R"
  by (induction ps arbitrary: m' w) (auto simp: runs_obind split: ptr.splits intro!: free)

lemma free_none: "A m w \<Longrightarrow> R () w \<Longrightarrow> runs blk (free_all [Null] w) R"
  by (simp add: runs_obind)

end

interpretation any_env: allocator "since sock w0" True for sock w0
  by unfold_locales (auto intro: runs_sys_malloc runs_free_Ptr runs_store runs_load_str runs_load)

interpretation healthy_env: allocator "\<lambda>m w. online sock w0 m bs out w" False for sock w0 bs out
  by unfold_locales
    (auto intro: runs_sys_malloc_online runs_free_Ptr_online runs_store_online runs_load_str_online
      runs_load_online)

section \<open>Example worlds\<close>

text \<open>Descriptor 3 is a connection whose peer delivers these segments and closes, or falls silent.\<close>

definition peer_conn :: "byte list list \<Rightarrow> rcv_event list \<Rightarrow> conn" where
  "peer_conn segments ending = \<lparr>inq = map Data segments @ ending, sndq = [], outb = [], rcv_timeo = False\<rparr>"

definition peer_world :: "byte list list \<Rightarrow> world" where
  "peer_world segments =
     \<lparr>socks = [3 \<mapsto> Connected (peer_conn segments [Eof])], heap = Map.empty, next_id = 0,
      mallocs = [], junk = (\<lambda>_ _. 0xA5), fds = [3], sockopts = [], listeners = (\<lambda>_ _. None),
      taken = (\<lambda>_. False), backlog = (\<lambda>_. [])\<rparr>"

lemma avail_map_Data [simp]: "avail (map Data bss @ [Eof]) = concat bss"
  by (induction bss) simp_all

lemma peer_world_simps [simp]:
  "wf_heap (peer_world bss)" "healthy 3 (peer_world bss)" "closes 3 (peer_world bss)"
  "pending 3 (peer_world bss) = Some (concat bss)" "sent 3 (peer_world bss) = []"
  "heap (peer_world bss) = Map.empty"
  by (simp_all add: peer_world_def peer_conn_def wf_heap_def healthy_def closes_def pending_def sent_def)

end
