(* ===== verification/Wire.thy ===== *)
theory Wire
  imports Prelude
begin

text \<open>
  The QAP1 wire format of rincs/Rsrv.h: the packet header \<open>phdr\<close> and its layout, the command, data
  and expression codes the client uses (the others are in Wire_Codes), the macros that split and combine header words, and the
  byte-order helpers. The second half writes down, from the comments of the same header, how a
  parameter, an expression and a whole packet are laid out; the components' properties speak of
  replies and requests through these encoders.
\<close>

section \<open>Codes\<close>

definition CMD_voidEval :: u32 where "CMD_voidEval = 0x002"
definition CMD_eval :: u32 where "CMD_eval = 0x003"
definition CMD_shutdown :: u32 where "CMD_shutdown = 0x004"
definition CMD_setSEXP :: u32 where "CMD_setSEXP = 0x020"

definition CMD_RESP :: u32 where "CMD_RESP = 0x10000"
definition RESP_OK :: u32 where "RESP_OK = CMD_RESP OR 0x0001"
definition RESP_ERR :: u32 where "RESP_ERR = CMD_RESP OR 0x0002"
definition CMD_OOB :: u32 where "CMD_OOB = 0x20000"
definition OOB_SEND :: u32 where "OOB_SEND = CMD_OOB OR 0x1000"
definition OOB_MSG :: u32 where "OOB_MSG = CMD_OOB OR 0x2000"

definition DT_STRING :: u32 where "DT_STRING = 4"
definition DT_SEXP :: u32 where "DT_SEXP = 10"

definition XT_NULL :: u32 where "XT_NULL = 0"
definition XT_SYMNAME :: u32 where "XT_SYMNAME = 19"
definition XT_LIST_TAG :: u32 where "XT_LIST_TAG = 21"
definition XT_ARRAY_INT :: u32 where "XT_ARRAY_INT = 32"
definition XT_ARRAY_DOUBLE :: u32 where "XT_ARRAY_DOUBLE = 33"
definition XT_ARRAY_STR :: u32 where "XT_ARRAY_STR = 34"
definition XT_ARRAY_BOOL :: u32 where "XT_ARRAY_BOOL = 36"
definition XT_LARGE :: u32 where "XT_LARGE = 64"
definition XT_HAS_ATTR :: u32 where "XT_HAS_ATTR = 128"

lemmas cmd_codes = CMD_voidEval_def CMD_eval_def CMD_shutdown_def CMD_setSEXP_def
lemmas resp_codes = CMD_RESP_def RESP_OK_def RESP_ERR_def CMD_OOB_def OOB_SEND_def OOB_MSG_def
lemmas dt_codes = DT_STRING_def DT_SEXP_def
lemmas xt_codes = XT_NULL_def XT_SYMNAME_def XT_LIST_TAG_def XT_ARRAY_INT_def XT_ARRAY_DOUBLE_def
  XT_ARRAY_STR_def XT_ARRAY_BOOL_def XT_LARGE_def XT_HAS_ATTR_def

section \<open>Macros\<close>

definition PAR_TYPE :: "u32 \<Rightarrow> u32" where
  "PAR_TYPE x = x AND 255"

definition PAR_LEN :: "u32 \<Rightarrow> u32" where
  "PAR_LEN x = drop_bit 8 x"

definition SET_PAR :: "u32 \<Rightarrow> u32 \<Rightarrow> u32" where
  "SET_PAR ty len = push_bit 8 (len AND 0xffffff) OR (ty AND 255)"

text \<open>\<open>X\<close> is an \<open>int\<close>: the shift is arithmetic, but the mask keeps only shifted-in bits of \<open>X\<close>.\<close>

definition CMD_STAT :: "u32 \<Rightarrow> u32" where
  "CMD_STAT x = signed_drop_bit 24 x AND 127"

definition SET_STAT :: "u32 \<Rightarrow> u32 \<Rightarrow> u32" where
  "SET_STAT x s = x OR push_bit 24 (s AND 127)"

definition IS_OOB_SEND :: "u32 \<Rightarrow> bool" where
  "IS_OOB_SEND x \<longleftrightarrow> x AND 0x0ffff000 = OOB_SEND"

definition IS_OOB_MSG :: "u32 \<Rightarrow> bool" where
  "IS_OOB_MSG x \<longleftrightarrow> x AND 0x0ffff000 = OOB_MSG"

definition OOB_USR_CODE :: "u32 \<Rightarrow> u32" where
  "OOB_USR_CODE x = x AND 0xfff"

definition GET_XT :: "u32 \<Rightarrow> u32" where
  "GET_XT x = x AND 63"

definition GET_DT :: "u32 \<Rightarrow> u32" where
  "GET_DT x = x AND 63"

definition HAS_ATTR :: "u32 \<Rightarrow> bool" where
  "HAS_ATTR x \<longleftrightarrow> x AND XT_HAS_ATTR > 0"

definition IS_LARGE :: "u32 \<Rightarrow> bool" where
  "IS_LARGE x \<longleftrightarrow> x AND XT_LARGE > 0"

text \<open>The byte-swapping \<open>itop\<close>, \<open>dtop\<close> and \<open>fixdcpy\<close> of the \<open>SWAPEND\<close> build, on the bytes of
  their argument in memory order, and the run-time check that \<open>itop\<close> was chosen right.\<close>

fun itop_bytes :: "byte list \<Rightarrow> byte list" where
  "itop_bytes [b0, b1, b2, b3] = [b3, b2, b1, b0]"
| "itop_bytes bs = bs"

fun dtop_bytes :: "byte list \<Rightarrow> byte list" where
  "dtop_bytes [b0, b1, b2, b3, b4, b5, b6, b7] = [b7, b6, b5, b4, b3, b2, b1, b0]"
| "dtop_bytes bs = bs"

definition fixdcpy :: "byte list \<Rightarrow> byte list \<Rightarrow> byte list" where
  "fixdcpy t s = fold (\<lambda>i t. t[7 - i := s ! i]) [0..<8] t"

definition isByteSexOk :: "(byte list \<Rightarrow> byte list) \<Rightarrow> byte list \<Rightarrow> bool" where
  "isByteSexOk itop native \<longleftrightarrow> (case itop native of b # _ \<Rightarrow> b = 0x78 | [] \<Rightarrow> False)"

section \<open>The packet header\<close>

record phdr =
  cmd :: u32
  len :: u32
  msg_id :: u32
  res :: u32

definition HDR_LEN :: nat where
  "HDR_LEN = 16"

definition enc_phdr :: "phdr \<Rightarrow> byte list" where
  "enc_phdr ph = le32 (cmd ph) @ le32 (len ph) @ le32 (msg_id ph) @ le32 (res ph)"

definition dec_phdr :: "byte list \<Rightarrow> phdr" where
  "dec_phdr bs = \<lparr>cmd = u32_at bs 0, len = u32_at bs 1, msg_id = u32_at bs 2, res = u32_at bs 3\<rparr>"

lemma length_enc_phdr [simp]: "length (enc_phdr ph) = 16"
  by (simp add: enc_phdr_def)

lemma enc_phdr_not_Nil [simp]: "enc_phdr ph \<noteq> []"
  by (metis length_enc_phdr list.size(3) zero_neq_numeral)

lemma dec_enc_phdr [layout_simps]: "dec_phdr (enc_phdr ph @ rest) = ph"
  by (simp add: dec_phdr_def enc_phdr_def layout_simps)

lemma dec_enc_phdr_Nil [layout_simps]: "dec_phdr (enc_phdr ph) = ph"
  using dec_enc_phdr [of ph "[]"] by simp

section \<open>Facts about the macros\<close>

lemma PAR_TYPE_SET_PAR: "PAR_TYPE (SET_PAR ty l) = ty AND 255"
  unfolding PAR_TYPE_def SET_PAR_def and_255
  by (rule bit_word_eqI) (auto simp: bit_simps)

lemma and_mask24: "x AND 0xffffff = take_bit 24 (x :: u32)"
  using take_bit_eq_mask [of 24 x] by (simp add: mask_eq_exp_minus_1)

lemma PAR_LEN_SET_PAR: "PAR_LEN (SET_PAR ty l) = l AND 0xffffff"
  unfolding PAR_LEN_def SET_PAR_def and_255 and_mask24
  by (rule bit_word_eqI) (auto simp: bit_simps)

lemma SET_PAR_of_parts: "SET_PAR (PAR_TYPE x) (PAR_LEN x) = x"
  unfolding PAR_TYPE_def PAR_LEN_def SET_PAR_def and_255 and_mask24
  by (rule bit_word_eqI) (auto simp: bit_simps)

text \<open>The client writes \<open>(len << 8) | ty\<close> where the protocol has \<open>SET_PAR\<close>: the same word.\<close>

lemma SET_PAR_shift: "unat (ty :: u32) < 256 \<Longrightarrow> push_bit 8 l OR ty = SET_PAR ty l"
proof -
  assume "unat ty < 256"
  then have "unat (take_bit 8 ty) = unat ty"
    by (simp add: unsigned_take_bit_eq take_bit_nat_eq_self)
  then have t: "take_bit 8 ty = ty" by (simp only: word_unat_eq_iff)
  have "push_bit 8 l OR take_bit 8 ty = SET_PAR ty l"
    unfolding SET_PAR_def and_255 and_mask24 by (rule bit_word_eqI) (auto simp: bit_simps)
  with t show ?thesis by simp
qed

lemma CMD_STAT_SET_STAT: "CMD_STAT x = 0 \<Longrightarrow> CMD_STAT (SET_STAT x s) = s AND 127"
proof -
  have m: "y AND 127 = take_bit 7 (y :: u32)" for y
    using take_bit_eq_mask [of 7 y] by (simp add: mask_eq_exp_minus_1)
  assume st: "CMD_STAT x = 0"
  have x: "\<not> bit x (24 + n)" if "n < 7" for n
  proof
    assume "bit x (24 + n)"
    with that have "bit (take_bit 7 (signed_drop_bit 24 x)) n" by (auto simp: bit_simps)
    with st show False by (simp add: CMD_STAT_def m)
  qed
  show ?thesis
    unfolding CMD_STAT_def SET_STAT_def m
    by (rule bit_word_eqI) (use x in \<open>auto simp: bit_simps\<close>)
qed

text \<open>Swapping twice is the identity (\<open>itop*itop=id\<close>), and \<open>fixdcpy\<close> copies as \<open>dtop\<close> swaps.\<close>

lemma length_4E:
  assumes "length bs = 4" obtains a b c d where "bs = [a, b, c, d]"
  using assms by (auto simp: length_Suc_conv numeral_eq_Suc)

lemma length_8E:
  assumes "length bs = 8" obtains a b c d e f g h where "bs = [a, b, c, d, e, f, g, h]"
  using assms by (auto simp: length_Suc_conv numeral_eq_Suc)

lemma dtop_bytes_inverse: "length bs = 8 \<Longrightarrow> dtop_bytes (dtop_bytes bs) = bs"
  by (erule length_8E) simp

lemma fixdcpy_dtop: "length t = 8 \<Longrightarrow> length s = 8 \<Longrightarrow> fixdcpy t s = dtop_bytes s"
  by (elim length_8E) (simp add: fixdcpy_def upt_rec)

lemma itop_bytes_inverse: "length bs = 4 \<Longrightarrow> itop_bytes (itop_bytes bs) = bs"
  by (erule length_4E) simp

section \<open>Properties\<close>

text \<open>A header word takes its type and 24-bit length apart and puts them together without loss, and the
  status bits of a command survive being set.\<close>

theorem par_word_roundtrip:
  "SET_PAR (PAR_TYPE x) (PAR_LEN x) = x \<and>
   PAR_TYPE (SET_PAR ty l) = ty AND 255 \<and> PAR_LEN (SET_PAR ty l) = l AND 0xffffff \<and>
   (CMD_STAT c = 0 \<longrightarrow> CMD_STAT (SET_STAT c s) = s AND 127)"
  by (simp add: SET_PAR_of_parts PAR_TYPE_SET_PAR PAR_LEN_SET_PAR CMD_STAT_SET_STAT)

theorem par_word_roundtrip_witness: "CMD_STAT (SET_STAT RESP_ERR 0x44) = 0x44"
  using par_word_roundtrip [of 0 0 0 RESP_ERR "0x44"] by (simp add: CMD_STAT_def RESP_ERR_def CMD_RESP_def)

end
