(* ===== verification/Transport.thy ===== *)
theory Transport
  imports Machine Wire
begin

text \<open>
  The bottom of src/aux_rcli.c: \<open>get_buf_from_sock\<close>, which reads an exact number of bytes in as
  many \<open>read\<close> calls as it takes, \<open>read_hdr\<close> and \<open>close_conn\<close>. The abstract view is a byte stream
  that ends silently, by a close or by an error; \<open>stream_recv\<close> says what reading from it gives.
\<close>

section \<open>get_buf_from_sock\<close>

text \<open>
  The read loop: \<open>acc\<close> are the bytes delivered so far, so its length is \<open>total_num_read\<close>, and
  \<open>cap\<close> is the size of the object \<open>buf\<close> points to. The result is the status and the bytes.
\<close>

lemma sys_read_shrinks:
  "sys_read sock n w = Done (r, bs) w' \<Longrightarrow> 0 < r \<Longrightarrow> r = int (length bs) \<and> 0 < length bs \<and> length bs \<le> n"
  by (auto simp: sys_read_def dest: read_event_length
      split: option.splits sock_state.splits if_splits read_result.splits)

function get_buf_loop ::
    "int \<Rightarrow> nat \<Rightarrow> nat \<Rightarrow> nat \<Rightarrow> byte list \<Rightarrow> world \<Rightarrow> (int \<times> byte list, world) outcome" where
  "get_buf_loop sock cap num_to_read buflen acc w =
     (case sys_read sock buflen w of
        Undef u \<Rightarrow> Undef u
      | Blocked \<Rightarrow> Blocked
      | Done (num_read, bs) w' \<Rightarrow>
          if cap < length acc + length bs then Undef Out_of_bounds
          else if num_read = 0 then Done (-2, acc) w'
          else if num_read < 0 then Done (-3, acc) w'
          else if num_to_read \<le> length acc + length bs then Done (0, acc @ bs) w'
          else get_buf_loop sock cap num_to_read (buflen - length bs) (acc @ bs) w')"
  by pat_completeness auto
termination
proof (relation "measure (\<lambda>(sock, cap, num_to_read, buflen, acc, w). buflen)", goal_cases)
  case 1
  show ?case by simp
next
  case (2 sock cap num_to_read buflen acc w r w' num_read bs)
  then have "0 < num_read" by simp
  with 2 have "0 < length bs \<and> length bs \<le> buflen"
    by (metis sys_read_shrinks)
  then have "buflen - length bs < buflen" by linarith
  then show ?case by simp
qed

declare get_buf_loop.simps [simp del]

text \<open>
  \<open>buf\<close> is \<open>None\<close> for a null pointer, otherwise the capacity of the object. The result is the
  status, the bytes placed at \<open>buf\<close> (on an error, those read before it), and what is stored
  through \<open>ptr_num_read\<close>, if anything is.
\<close>

definition get_buf_from_sock ::
    "int \<Rightarrow> nat option \<Rightarrow> int \<Rightarrow> world \<Rightarrow> (int \<times> byte list \<times> int option, world) outcome" where
  "get_buf_from_sock sock buf buflen w =
     (if sock < 0 then Done (-1, [], None) w
      else if buflen < 0 then Done (-1, [], None) w
      else case buf of
          None \<Rightarrow> Done (-1, [], None) w
        | Some cap \<Rightarrow>
            if buflen = 0 then Done (0, [], None) w
            else obind (get_buf_loop sock cap (nat buflen) (nat buflen) [] w)
              (\<lambda>(st, bs) w'. Done (st, bs, if st = 0 then Some (int (length bs)) else None) w'))"

text \<open>
  The same with a heap block as the destination: the block's size is the capacity, and whatever
  was delivered is in the block afterwards.
\<close>

definition get_buf_heap :: "int \<Rightarrow> ptr \<Rightarrow> int \<Rightarrow> world \<Rightarrow> (int \<times> int option, world) outcome" where
  "get_buf_heap sock buf buflen w =
     (case buf of
        Indet \<Rightarrow> Undef Uninit_use
      | Null \<Rightarrow> obind (get_buf_from_sock sock None buflen w) (\<lambda>(st, bs, nr) w'. Done (st, nr) w')
      | Ptr i \<Rightarrow> (case heap w i of
            None \<Rightarrow> Undef Out_of_bounds
          | Some b \<Rightarrow>
              obind (get_buf_from_sock sock (Some (length b)) buflen w) (\<lambda>(st, bs, nr) w'.
              obind (store buf 0 bs w') (\<lambda>_ w''. Done (st, nr) w''))))"

text \<open>
  \<open>read_hdr\<close> reads over the caller's \<open>struct phdr\<close>; on an error the bytes received before it have
  already replaced the first bytes of the structure. A nonzero \<open>res\<close> is only reported on
  standard error.
\<close>

definition read_hdr :: "int \<Rightarrow> phdr \<Rightarrow> world \<Rightarrow> (int \<times> phdr, world) outcome" where
  "read_hdr sock ph w =
     obind (get_buf_from_sock sock (Some HDR_LEN) (int HDR_LEN) w)
       (\<lambda>(status, bs, num_read) w'. Done (status, dec_phdr (bs @ drop (length bs) (enc_phdr ph))) w')"

definition close_conn :: "int \<Rightarrow> world \<Rightarrow> (int, world) outcome" where
  "close_conn sock w = (if sock < 0 then Done (-1) w else sys_close sock w)"

section \<open>The stream view\<close>

datatype stream_result = Exact "byte list" | Short int "byte list" | Waits

definition stream_recv :: "nat \<Rightarrow> byte list \<Rightarrow> stop \<Rightarrow> stream_result" where
  "stream_recv n bs e =
     (if n \<le> length bs then Exact (take n bs)
      else case e of Silent \<Rightarrow> Waits | Closed \<Rightarrow> Short (-2) bs | Broken \<Rightarrow> Short (-3) bs)"

definition as_stream_result :: "(int \<times> byte list, world) outcome \<Rightarrow> stream_result" where
  "as_stream_result r = (case r of
       Done (st, bs) w \<Rightarrow> if st = 0 then Exact bs else Short st bs
     | _ \<Rightarrow> Waits)"

text \<open>One turn of the loop, on a connected socket with a queue that still has bytes.\<close>

lemma get_buf_loop_step:
  assumes c: "socks w sock = Some (Connected c)" and b: "0 < b" and a: "avail (inq c) \<noteq> []"
    and cap: "length acc + b \<le> cap"
  obtains k where "0 < k" "k \<le> b" "k \<le> length (avail (inq c))"
    "get_buf_loop sock cap n b acc w =
       (if n \<le> length acc + k
        then Done (0, acc @ take k (avail (inq c))) (put_conn sock (c\<lparr>inq := drain k (inq c)\<rparr>) w)
        else get_buf_loop sock cap n (b - k) (acc @ take k (avail (inq c)))
               (put_conn sock (c\<lparr>inq := drain k (inq c)\<rparr>) w))"
proof -
  from read_event_avail [OF b a] obtain k where k: "0 < k" "k \<le> b" "k \<le> length (avail (inq c))"
    and r: "read_event b (inq c) = Some (Got (take k (avail (inq c))), drain k (inq c))" by blast
  have "\<not> cap < length acc + k" using k cap by linarith
  then have "get_buf_loop sock cap n b acc w =
       (if n \<le> length acc + k
        then Done (0, acc @ take k (avail (inq c))) (put_conn sock (c\<lparr>inq := drain k (inq c)\<rparr>) w)
        else get_buf_loop sock cap n (b - k) (acc @ take k (avail (inq c)))
               (put_conn sock (c\<lparr>inq := drain k (inq c)\<rparr>) w))"
    using b k by (subst get_buf_loop.simps) (simp add: sys_read_def c r min_def Let_def)
  with k that show ?thesis by blast
qed

text \<open>Enough bytes on the stream: the loop delivers exactly the first \<open>b\<close> of them, however they
  are cut into segments.\<close>

lemma get_buf_loop_exact:
  assumes "socks w sock = Some (Connected c)" and "0 < b" and "b \<le> length (avail (inq c))"
    and "length acc + b \<le> cap"
  shows "get_buf_loop sock cap (length acc + b) b acc w =
    Done (0, acc @ take b (avail (inq c))) (put_conn sock (c\<lparr>inq := drain b (inq c)\<rparr>) w)"
  using assms
proof (induction b arbitrary: acc w c rule: less_induct)
  case (less b)
  have "avail (inq c) \<noteq> []" using less.prems by auto
  from get_buf_loop_step [OF less.prems(1,2) this less.prems(4), of "length acc + b"] obtain k where
    k: "0 < k" "k \<le> b" "k \<le> length (avail (inq c))" and
    step: "get_buf_loop sock cap (length acc + b) b acc w =
       (if length acc + b \<le> length acc + k
        then Done (0, acc @ take k (avail (inq c))) (put_conn sock (c\<lparr>inq := drain k (inq c)\<rparr>) w)
        else get_buf_loop sock cap (length acc + b) (b - k) (acc @ take k (avail (inq c)))
               (put_conn sock (c\<lparr>inq := drain k (inq c)\<rparr>) w))" by blast
  show ?case
  proof (cases "k = b")
    case True
    with step show ?thesis by simp
  next
    case False
    let ?c = "c\<lparr>inq := drain k (inq c)\<rparr>"
    let ?acc = "acc @ take k (avail (inq c))"
    have len: "length ?acc + (b - k) = length acc + b" using k by simp
    have "get_buf_loop sock cap (length ?acc + (b - k)) (b - k) ?acc (put_conn sock ?c w) =
      Done (0, ?acc @ take (b - k) (avail (inq ?c)))
        (put_conn sock (?c\<lparr>inq := drain (b - k) (inq ?c)\<rparr>) (put_conn sock ?c w))"
      by (rule less.IH) (use False k less.prems in auto)
    moreover have "take k (avail (inq c)) @ take (b - k) (drop k (avail (inq c))) = take b (avail (inq c))"
      using k by (simp flip: take_add)
    ultimately show ?thesis using step False k len by (simp add: drain_drain)
  qed
qed


text \<open>Too few bytes: the loop has consumed them all and reports how the stream stopped.\<close>

lemma get_buf_loop_short:
  assumes "socks w sock = Some (Connected c)" and "length (avail (inq c)) < b"
    and "length acc + b \<le> cap"
  shows "as_stream_result (get_buf_loop sock cap (length acc + b) b acc w) =
    stream_recv (length acc + b) (acc @ avail (inq c)) (stop_at c)"
  using assms
proof (induction b arbitrary: acc w c rule: less_induct)
  case (less b)
  have b: "0 < b" using less.prems(2) by simp
  show ?case
  proof (cases "avail (inq c) = []")
    case True
    then show ?thesis using b less.prems
      by (subst get_buf_loop.simps)
        (simp add: sys_read_def read_event_stopped stop_at_def stream_recv_def as_stream_result_def split: stop.splits)
  next
    case False
    from get_buf_loop_step [OF less.prems(1) b this less.prems(3), of "length acc + b"] obtain k where
      k: "0 < k" "k \<le> b" "k \<le> length (avail (inq c))" and
      step: "get_buf_loop sock cap (length acc + b) b acc w =
         (if length acc + b \<le> length acc + k
          then Done (0, acc @ take k (avail (inq c))) (put_conn sock (c\<lparr>inq := drain k (inq c)\<rparr>) w)
          else get_buf_loop sock cap (length acc + b) (b - k) (acc @ take k (avail (inq c)))
                 (put_conn sock (c\<lparr>inq := drain k (inq c)\<rparr>) w))" by blast
    let ?c = "c\<lparr>inq := drain k (inq c)\<rparr>" and ?acc = "acc @ take k (avail (inq c))"
    have kb: "k < b" using k less.prems(2) by linarith
    have len: "length ?acc + (b - k) = length acc + b" using k by simp
    have "as_stream_result (get_buf_loop sock cap (length ?acc + (b - k)) (b - k) ?acc (put_conn sock ?c w)) =
      stream_recv (length ?acc + (b - k)) (?acc @ avail (inq ?c)) (stop_at ?c)"
      by (rule less.IH) (use kb k less.prems in auto)
    with step kb len show ?thesis by (simp add: stop_at_def)
  qed
qed

lemma get_buf_loop_stream:
  assumes c: "socks w sock = Some (Connected c)" and n: "0 < n" "n \<le> cap"
  shows "as_stream_result (get_buf_loop sock cap n n [] w) =
    stream_recv n (avail (inq c)) (stop_at c)"
proof (cases "n \<le> length (avail (inq c))")
  case True
  with get_buf_loop_exact [OF c n(1) True, of "[]" cap] n show ?thesis
    by (simp add: as_stream_result_def stream_recv_def)
next
  case False
  with get_buf_loop_short [OF c, of n "[]" cap] n show ?thesis by simp
qed

section \<open>Rules for the readers\<close>

lemma get_buf_loop_obind:
  "get_buf_loop sock cap n b acc w = obind (sys_read sock b w) (\<lambda>(num_read, bs) w'.
     if cap < length acc + length bs then Undef Out_of_bounds
     else if num_read = 0 then Done (-2, acc) w'
     else if num_read < 0 then Done (-3, acc) w'
     else if n \<le> length acc + length bs then Done (0, acc @ bs) w'
     else get_buf_loop sock cap n (b - length bs) (acc @ bs) w')"
  by (subst get_buf_loop.simps) (simp add: obind_def split: outcome.splits prod.splits)

lemma runs_get_buf_loop:
  assumes "since sock w0 m w" and "\<not> blk \<longrightarrow> closes sock w0"
    and "length acc + b \<le> cap" and "0 < b"
    and "\<And>st bs w'. since sock w0 m w' \<Longrightarrow>
      st = 0 \<and> length bs = length acc + b \<or> st \<in> {-2, -3} \<and> length bs < length acc + b \<Longrightarrow> Q (st, bs) w'"
  shows "runs blk (get_buf_loop sock cap (length acc + b) b acc w) Q"
  using assms
proof (induction b arbitrary: acc w rule: less_induct)
  case (less b)
  show ?case
    unfolding get_buf_loop_obind [of _ _ _ b] runs_obind
  proof (rule runs_sys_read [OF less.prems(1,2)])
    fix r and bs :: "byte list" and w'
    assume w': "since sock w0 m w'" and r: "r = -1 \<and> bs = [] \<or> r = int (length bs) \<and> length bs \<le> b"
    have "runs blk (get_buf_loop sock cap (length acc + b) (b - length bs) (acc @ bs) w') Q"
      if "0 < length bs" "length bs < b"
      using less.IH [of "b - length bs" w' "acc @ bs"] that w' less.prems by simp
    with r w' less.prems show "runs blk ((\<lambda>(num_read, bs) w'.
       if cap < length acc + length bs then Undef Out_of_bounds
       else if num_read = 0 then Done (-2, acc) w'
       else if num_read < 0 then Done (-3, acc) w'
       else if length acc + b \<le> length acc + length bs then Done (0, acc @ bs) w'
       else get_buf_loop sock cap (length acc + b) (b - length bs) (acc @ bs) w') (r, bs) w') Q"
      by auto
  qed
qed

lemma runs_get_buf [vcg]:
  assumes s: "since sock w0 m w" and b: "\<not> blk \<longrightarrow> closes sock w0" and cap: "n \<le> int cap"
    and Q: "\<And>st bs nr w'. since sock w0 m w' \<Longrightarrow>
      st = 0 \<and> 0 \<le> sock \<and> int (length bs) = n \<and> nr = (if n = 0 then None else Some n) \<or>
      st \<in> {-1, -2, -3} \<and> length bs \<le> cap \<and> nr = None \<Longrightarrow> Q (st, bs, nr) w'"
  shows "runs blk (get_buf_from_sock sock (Some cap) n w) Q"
proof (cases "sock < 0 \<or> n \<le> 0")
  case True
  with s Q show ?thesis by (auto simp: get_buf_from_sock_def)
next
  case False
  then have *: "get_buf_from_sock sock (Some cap) n w =
    obind (get_buf_loop sock cap (length ([]::byte list) + nat n) (nat n) [] w)
      (\<lambda>(st, bs) w'. Done (st, bs, if st = 0 then Some (int (length bs)) else None) w')"
    by (simp add: get_buf_from_sock_def)
  show ?thesis
    unfolding * runs_obind
    by (rule runs_get_buf_loop [OF s b]) (use False cap in \<open>auto intro!: Q\<close>)
qed

lemma runs_get_buf_online [vcg_online]:
  assumes o: "online sock w0 m bs out w" and n: "0 < n" "nat n \<le> length bs" "n \<le> int cap" "0 \<le> sock"
    and Q: "\<And>w'. online sock w0 m (drop (nat n) bs) out w' \<Longrightarrow> Q (0, take (nat n) bs, Some n) w'"
  shows "runs blk (get_buf_from_sock sock (Some cap) n w) Q"
proof -
  from o obtain c where c: "socks w sock = Some (Connected c)" "avail (inq c) = bs" "outb c = out"
    "sndq c = []" "mallocs w = []" "since sock w0 m w" by (rule onlineE)
  let ?c = "c\<lparr>inq := drain (nat n) (inq c)\<rparr>"
  have "online sock w0 m (drop (nat n) bs) out (put_conn sock ?c w)"
    by (rule online_conn [where c = ?c])
      (use c in \<open>auto intro!: since_net Eof_in_drain simp: closes_conn\<close>)
  moreover have "get_buf_loop sock cap (nat n) (nat n) [] w = Done (0, take (nat n) bs) (put_conn sock ?c w)"
    using get_buf_loop_exact [OF c(1), of "nat n" "[]" cap] n c by simp
  moreover have "int (length (take (nat n) bs)) = n" using n by simp
  ultimately show ?thesis using n Q by (simp add: get_buf_from_sock_def del: length_take)
qed

lemma runs_get_buf_heap [vcg]:
  assumes s: "since sock w0 m w" and b: "\<not> blk \<longrightarrow> closes sock w0"
    and i: "m i = Some c" and cap: "n \<le> int (length c)"
    and Q: "\<And>st bs nr w'. since sock w0 (m(i \<mapsto> bs @ drop (length bs) c)) w' \<Longrightarrow> length bs \<le> length c \<Longrightarrow>
      st = 0 \<and> int (length bs) = n \<or> st \<in> {-1, -2, -3} \<Longrightarrow> Q (st, nr) w'"
  shows "runs blk (get_buf_heap sock (Ptr i) n w) Q"
  unfolding get_buf_heap_def ptr.case since_block [OF s i] option.case runs_obind
  by (rule runs_get_buf [OF s b cap])
    (use cap in \<open>auto simp: runs_obind intro!: runs_store [where b = c] i Q\<close>)

lemma runs_get_buf_heap_online [vcg_online]:
  assumes o: "online sock w0 m bs out w" and i: "m i = Some c"
    and n: "n = int (length c)" "length c \<le> length bs" "0 \<le> sock"
    and Q: "\<And>w' nr. online sock w0 (m(i \<mapsto> take (length c) bs)) (drop (length c) bs) out w' \<Longrightarrow> Q (0, nr) w'"
  shows "runs blk (get_buf_heap sock (Ptr i) n w) Q"
proof (cases "c = []")
  case True
  have "online sock w0 (m(i \<mapsto> [])) bs out (w\<lparr>heap := (heap w)(i \<mapsto> [])\<rparr>)"
    by (rule online_heap_upd [OF o]) (simp add: i)
  with True n Q [of _ None] i show ?thesis
    by (simp add: get_buf_heap_def since_block [OF online_since [OF o] i] get_buf_from_sock_def
        store_def)
next
  case False
  then have c: "0 < n" "nat n = length c" using n by auto
  show ?thesis
    unfolding get_buf_heap_def ptr.case since_block [OF online_since [OF o] i] option.case runs_obind
    by (rule runs_get_buf_online [OF o])
      (use c n in \<open>auto simp: runs_obind i intro!: runs_store_online [where b = c] Q\<close>)
qed

lemma runs_read_hdr [vcg]:
  assumes s: "since sock w0 m w" and b: "\<not> blk \<longrightarrow> closes sock w0"
    and Q: "\<And>st ph' w'. since sock w0 m w' \<Longrightarrow> st = 0 \<and> 0 \<le> sock \<or> st \<in> {-1, -2, -3} \<Longrightarrow> Q (st, ph') w'"
  shows "runs blk (read_hdr sock ph w) Q"
  unfolding read_hdr_def runs_obind
  by (rule runs_get_buf [OF s b]) (auto intro!: Q)

lemma runs_read_hdr_online [vcg_online]:
  assumes o: "online sock w0 m (enc_phdr ph @ bs) out w" and sock: "0 \<le> sock"
    and Q: "\<And>w'. online sock w0 m bs out w' \<Longrightarrow> Q (0, ph) w'"
  shows "runs blk (read_hdr sock ph0 w) Q"
  unfolding read_hdr_def runs_obind HDR_LEN_def
  by (rule runs_get_buf_online [OF o]) (use sock in \<open>auto intro!: Q simp: layout_simps\<close>)

section \<open>Properties\<close>


lemma sys_read_no_ub: "sys_read sock n w \<noteq> Undef u"
  by (auto simp: sys_read_def split: option.splits sock_state.splits read_result.splits)

lemma sys_read_amount: "sys_read sock n w = Done (r, bs) w' \<Longrightarrow> length bs \<le> n"
  by (auto simp: sys_read_def dest: read_event_length
      split: option.splits sock_state.splits read_result.splits if_splits)

lemma get_buf_loop_no_ub:
  "length acc + b \<le> cap \<Longrightarrow> get_buf_loop sock cap n b acc w \<noteq> Undef u"
proof (induction sock cap n b acc w rule: get_buf_loop.induct)
  case (1 sock cap n b acc w)
  show ?case
  proof (cases "sys_read sock b w")
    case (Done a w')
    obtain r bs where a: "a = (r, bs)" by (cases a)
    have "length bs \<le> b" using Done a by (auto dest: sys_read_amount)
    then show ?thesis
      using "1.IH" [OF Done a [symmetric]] "1.prems" Done a by (subst get_buf_loop.simps) simp
  qed (subst get_buf_loop.simps, use sys_read_no_ub [of sock b w] in simp)+
qed

text \<open>C10. \<open>get_buf_from_sock\<close> refines reading from a byte stream: however the bytes are cut into segments and
  the reads return short, it delivers exactly the first \<open>n\<close> bytes, or all there are with -2 at a close
  and -3 at an error, or waits for ever on a silent peer; it leaves the rest of the stream alone.\<close>

theorem get_buf_refines_stream:
  assumes "socks w sock = Some (Connected c)" and "0 \<le> sock" and "0 < n" and "n \<le> cap"
  shows "case stream_recv n (avail (inq c)) (stop_at c) of
      Exact bs \<Rightarrow> get_buf_from_sock sock (Some cap) (int n) w =
        Done (0, bs, Some (int n)) (put_conn sock (c\<lparr>inq := drain n (inq c)\<rparr>) w)
    | Short st bs \<Rightarrow> \<exists>w'. get_buf_from_sock sock (Some cap) (int n) w = Done (st, bs, None) w'
    | Waits \<Rightarrow> get_buf_from_sock sock (Some cap) (int n) w = Blocked"
proof (cases "n \<le> length (avail (inq c))")
  case True
  then show ?thesis
    using get_buf_loop_exact [OF assms(1,3) True, of "[]" cap] assms
    by (simp add: stream_recv_def get_buf_from_sock_def min_def)
next
  case False
  then have "as_stream_result (get_buf_loop sock cap n n [] w) = stream_recv n (avail (inq c)) (stop_at c)"
    using get_buf_loop_stream [OF assms(1,3,4)] by simp
  moreover have "get_buf_loop sock cap n n [] w \<noteq> Undef u" for u
    using get_buf_loop_no_ub [of "[]" n cap sock n w u] assms(4) by simp
  ultimately show ?thesis using False assms
    by (auto simp: stream_recv_def get_buf_from_sock_def as_stream_result_def
        split: outcome.splits stop.splits if_splits)
qed


theorem get_buf_refines_stream_witness:
  "get_buf_from_sock 3 (Some 16) 3 (peer_world [[1, 2], [], [3, 4]]) =
     Done (0, [1, 2, 3], Some 3) (put_conn 3 (peer_conn [[4]] [Eof]) (peer_world [[1, 2], [], [3, 4]]))"
  using get_buf_refines_stream [of "peer_world [[1, 2], [], [3, 4]]" 3 "peer_conn [[1, 2], [], [3, 4]] [Eof]" 3 16]
  by (simp add: peer_world_def peer_conn_def stream_recv_def drain_Data)

end
