(* ===== verification/Request.thy ===== *)
theory Request
  imports Transport
begin

text \<open>
  Building a request (src/aux_rcli.c): \<open>mk_dt_string\<close> lays a string out as a \<open>DT_STRING\<close> parameter
  in a fresh block, \<open>mk_hdr\<close> fills the packet header for one of the four commands the client
  knows. \<open>dt_string_param\<close> is the layout the protocol asks for.
\<close>

section \<open>mk_dt_string\<close>

text \<open>The loop that rounds \<open>len_name\<close> up, on \<open>size_t\<close>.\<close>

lemma round_guard: "((x + 4) div 8) * 8 = x \<longleftrightarrow> unat x mod 8 = 0" for x :: size_t
proof -
  have div8: "unat (y div 8 * 8) = unat y div 8 * 8" for y :: size_t
  proof -
    have d: "unat (y div 8) = unat y div 8" by (simp add: unat_div)
    have "unat y div 8 * 8 < 2 ^ 64"
      using unsigned_less [of y, where 'a = nat] by simp
    then show ?thesis by (simp add: unat_word_ariths(2) d)
  qed
  have eq: "((x + 4) div 8) * 8 = x \<longleftrightarrow> unat (x + 4) div 8 * 8 = unat x"
    using div8 [of "x + 4"] by (metis word_unat_eq_iff)
  have x: "unat x < 2 ^ 64" using unsigned_less [of x, where 'a = nat] by simp
  show ?thesis
  proof
    assume "((x + 4) div 8) * 8 = x"
    with eq have "unat x = unat (x + 4) div 8 * 8" by simp
    then show "unat x mod 8 = 0" by simp
  next
    assume m: "unat x mod 8 = 0"
    moreover have "unat x < 18446744073709551616" using x by simp
    ultimately have "unat x + 4 < 18446744073709551616" by presburger
    then have "unat (x + 4) = unat x + 4" by (simp add: unat_word_ariths)
    moreover have "\<exists>q. unat x = 8 * q" using m by presburger
    ultimately have "unat (x + 4) div 8 * 8 = unat x" by auto
    with eq show "((x + 4) div 8) * 8 = x" by simp
  qed
qed

lemma unat_plus_1_mod_8: "unat (x + 1) mod 8 = (unat x + 1) mod 8" for x :: size_t
proof -
  have "unat (x + 1) = (unat x + 1) mod 2 ^ 64" by (simp add: unat_word_ariths)
  then show ?thesis by (simp add: mod_mod_cancel)
qed

lemma round_step: "r \<noteq> 0 \<Longrightarrow> r < 8 \<Longrightarrow> (8 - (r + 1) mod 8) mod 8 < (8 - r) mod (8::nat)"
  by (cases "r = 7") auto

function extend_len_name :: "size_t \<Rightarrow> size_t" where
  "extend_len_name len_name =
     (if ((len_name + 4) div 8) * 8 \<noteq> len_name then extend_len_name (len_name + 1) else len_name)"
  by pat_completeness auto
termination
proof (relation "measure (\<lambda>x. (8 - unat x mod 8) mod 8)", goal_cases)
  case 1
  show ?case by simp
next
  case (2 x)
  then have "unat x mod 8 \<noteq> 0" by (simp add: round_guard)
  moreover have "unat (x + 1) mod 8 = (unat x mod 8 + 1) mod 8"
    by (simp add: unat_plus_1_mod_8 mod_Suc_eq)
  ultimately show ?case
    using round_step [of "unat x mod 8"] by simp
qed

declare extend_len_name.simps [simp del]

text \<open>The least multiple of 8 that is at least \<open>n\<close>.\<close>

definition round8 :: "nat \<Rightarrow> nat" where
  "round8 n = (n + 7) div 8 * 8"

lemma round8_bounds: "n \<le> round8 n" "round8 n < n + 8" "round8 n mod 8 = 0" "4 dvd round8 n"
  unfolding round8_def by presburger+

lemma round8_Suc:
  assumes "x mod 8 \<noteq> 0" shows "round8 (x + 1) = round8 x"
proof -
  define q r where "q = x div 8" and "r = x mod 8"
  have x: "x = r + q * 8" by (simp add: q_def r_def)
  have r: "0 < r" "r < 8" using assms by (simp_all add: r_def)
  have "(r + 8) div 8 = 1" "(r + 7) div 8 = 1" using r by (auto intro: div_nat_eqI)
  then have "(r + 8 + q * 8) div 8 = (r + 7 + q * 8) div 8" by simp
  then show ?thesis unfolding round8_def x by (simp add: ac_simps)
qed

lemma extend_len_name_round8:
  "unat x + 8 \<le> 2 ^ 64 \<Longrightarrow> unat (extend_len_name x) = round8 (unat x)"
proof (induction x rule: extend_len_name.induct)
  case (1 x)
  show ?case
  proof (cases "unat x mod 8 = 0")
    case True
    then have "extend_len_name x = x" by (subst extend_len_name.simps) (simp add: round_guard)
    moreover have "round8 (unat x) = unat x" using True unfolding round8_def by presburger
    ultimately show ?thesis by simp
  next
    case False
    have less: "unat x + 1 < 2 ^ 64" using "1.prems" by simp
    then have s: "unat (x + 1) = unat x + 1" by (simp add: unat_word_ariths)
    have guard: "((x + 4) div 8) * 8 \<noteq> x" using False by (simp add: round_guard)
    then have e: "extend_len_name x = extend_len_name (x + 1)"
      by (subst extend_len_name.simps) simp
    have r: "round8 (unat x + 1) = round8 (unat x)" using False by (rule round8_Suc)
    show ?thesis
    proof (cases "unat x + 9 \<le> 2 ^ 64")
      case True
      then have "unat (x + 1) + 8 \<le> 2 ^ 64" unfolding s by simp
      from "1.IH" [OF guard this] show ?thesis unfolding e s r .
    next
      case edge: False
      then have "unat x = 2 ^ 64 - 8" using "1.prems" by simp
      then have "unat x mod 8 = 0" by simp
      with False show ?thesis by simp
    qed
  qed
qed

text \<open>The locals of \<open>mk_dt_string\<close> that outlive it: what is stored through its two out-pointers.\<close>

definition mk_dt_string :: "cstr option \<Rightarrow> world \<Rightarrow> (int \<times> (ptr \<times> size_t) option, world) outcome" where
  "mk_dt_string name = proc None
    (case name of
       None \<Rightarrow> go_BYE (-1)
     | Some s \<Rightarrow>
        let len_name = extend_len_name (of_nat (length s) + 1);
            len_param = 4 + len_name
        in
        chain (call (sys_memalign len_param)) (\<lambda>(status, param).
        chain (cBYE status) (\<lambda>_.
        chain (bye_when (param = Null) (-1)) (\<lambda>_.
        chain (call (store param 0 (replicate (unat len_param) 0))) (\<lambda>_.
        chain (call (store param 0 (le32 (ucast (push_bit 8 len_name OR ucast DT_STRING))))) (\<lambda>_.
        chain (call (store param 4 (s @ [0]))) (\<lambda>_.
        chain (upd_loc (\<lambda>_. Some (param, len_param))) (\<lambda>_.
        chain (bye_when (len_param AND 3 \<noteq> 0) (-1)) (\<lambda>_.
        done_with status)))))))))
    (\<lambda>status out w. Done (status, out) w)"

text \<open>The layout of a \<open>DT_STRING\<close> parameter as Rsrv.h describes parameters: one header word with
  type and length, then the string with its NUL, padded with zeros.\<close>

definition dt_string_param :: "cstr \<Rightarrow> byte list" where
  "dt_string_param s =
     (let n = round8 (length s + 1) in
      le32 (SET_PAR DT_STRING (of_nat n)) @ s @ replicate (n - length s) 0)"

lemma length_dt_string_param: "length (dt_string_param s) = 4 + round8 (length s + 1)"
  using round8_bounds(1) [of "length s + 1"] by (simp add: dt_string_param_def Let_def)

text \<open>A string whose parameter fits in memory.\<close>

definition cstr_fits :: "cstr \<Rightarrow> bool" where
  "cstr_fits s \<longleftrightarrow> length s + 16 < 2 ^ 63"

lemma len_name_facts:
  assumes "cstr_fits s"
  shows "unat (extend_len_name (of_nat (length s) + 1)) = round8 (length s + 1)"
    and "unat (4 + extend_len_name (of_nat (length s) + 1)) = 4 + round8 (length s + 1)"
proof -
  have l: "length s < 2 ^ 63" using assms by (simp add: cstr_fits_def)
  then have u: "unat (of_nat (length s) + 1 :: size_t) = length s + 1"
    by (simp add: unat_word_ariths unsigned_of_nat take_bit_nat_eq_self)
  from l have "unat (of_nat (length s) + 1 :: size_t) + 8 \<le> 2 ^ 64" unfolding u by simp
  from extend_len_name_round8 [OF this]
  show e: "unat (extend_len_name (of_nat (length s) + 1)) = round8 (length s + 1)" by (simp only: u)
  have "4 + round8 (length s + 1) < 2 ^ 64" using l round8_bounds(2) [of "length s + 1"] by simp
  with e show "unat (4 + extend_len_name (of_nat (length s) + 1)) = 4 + round8 (length s + 1)"
    by (simp add: unat_word_ariths)
qed


section \<open>mk_hdr\<close>

text \<open>\<open>ph\<close> is the caller's header, \<open>None\<close> for a null pointer; the result is the status and the
  header afterwards.\<close>

definition mk_hdr :: "cstr option \<Rightarrow> int \<Rightarrow> phdr option \<Rightarrow> int \<times> phdr option" where
  "mk_hdr command payload_len ph =
     (case command of
        None \<Rightarrow> (-1, ph)
      | Some cmd_name \<Rightarrow>
          if ph = None then (-1, ph)
          else if payload_len < 0 then (-1, ph)
          else
            let p = \<lparr>cmd = 0, len = word_of_int payload_len, msg_id = 0, res = 0\<rparr> in
            if cmd_name = lit ''CMD_shutdown'' then (0, Some (p\<lparr>cmd := CMD_shutdown\<rparr>))
            else if cmd_name = lit ''CMD_setSEXP'' then (0, Some (p\<lparr>cmd := CMD_setSEXP\<rparr>))
            else if cmd_name = lit ''CMD_eval'' then (0, Some (p\<lparr>cmd := CMD_eval\<rparr>))
            else if cmd_name = lit ''CMD_voidEval'' then (0, Some (p\<lparr>cmd := CMD_voidEval\<rparr>))
            else (-1, Some p))"

text \<open>The commands \<open>mk_hdr\<close> knows, with their codes.\<close>

definition command_code :: "cstr \<Rightarrow> u32 option" where
  "command_code c = map_of
     [(lit ''CMD_shutdown'', CMD_shutdown), (lit ''CMD_setSEXP'', CMD_setSEXP),
      (lit ''CMD_eval'', CMD_eval), (lit ''CMD_voidEval'', CMD_voidEval)] c"

lemma command_code_simps [simp]:
  "command_code (lit ''CMD_shutdown'') = Some CMD_shutdown"
  "command_code (lit ''CMD_setSEXP'') = Some CMD_setSEXP"
  "command_code (lit ''CMD_eval'') = Some CMD_eval"
  "command_code (lit ''CMD_voidEval'') = Some CMD_voidEval"
  by (simp_all add: command_code_def)

lemma mk_hdr_known:
  "command_code c = Some code \<Longrightarrow> 0 \<le> n \<Longrightarrow>
   mk_hdr (Some c) n (Some ph) = (0, Some \<lparr>cmd = code, len = word_of_int n, msg_id = 0, res = 0\<rparr>)"
  by (auto simp: mk_hdr_def command_code_def split: if_splits)

lemma mk_hdr_status: "fst (mk_hdr c n ph) \<in> {0, -1}"
  by (auto simp: mk_hdr_def Let_def split: option.splits)

lemma mk_hdr_negative: "n < 0 \<Longrightarrow> mk_hdr c n ph = (-1, ph)"
  by (simp add: mk_hdr_def split: option.splits)

lemma mk_hdr_unknown: "command_code c = None \<Longrightarrow> fst (mk_hdr (Some c) n ph) = -1"
  by (auto simp: mk_hdr_def command_code_def Let_def split: if_splits)

section \<open>Rules for the builders\<close>

lemma header_word_trunc:
  "ucast (push_bit 8 l OR ucast DT_STRING) = SET_PAR DT_STRING (ucast l)" for l :: size_t
proof -
  have "ucast (push_bit 8 l OR ucast DT_STRING) = push_bit 8 (ucast l) OR DT_STRING"
    by (rule bit_word_eqI) (auto simp: bit_simps DT_STRING_def)
  also have "\<dots> = SET_PAR DT_STRING (ucast l)"
    by (rule SET_PAR_shift) (simp add: DT_STRING_def)
  finally show ?thesis .
qed

text \<open>The three stores of \<open>mk_dt_string\<close> leave the parameter in the block.\<close>

lemma dt_string_stores:
  fixes hw :: u32
  assumes "round8 (length s + 1) = n" and "length b = 4 + n"
  defines "z \<equiv> replicate (4 + n) (0::byte) @ drop (4 + n) b"
  defines "h \<equiv> le32 hw @ drop 4 z"
  shows "take 4 h @ (s @ [0]) @ drop (4 + length (s @ [0])) h = le32 hw @ s @ replicate (n - length s) 0"
proof -
  have n: "length s + 1 \<le> n" using round8_bounds(1) assms(1) by blast
  have h: "h = le32 hw @ replicate n 0" using assms(2) by (simp add: h_def z_def)
  show ?thesis
  proof -
    have "drop (4 + length (s @ [0::byte])) h = replicate (n - (length s + 1)) 0"
      by (simp add: h)
    moreover have "[0::byte] @ replicate (n - (length s + 1)) 0 = replicate (n - length s) 0"
      using n by (metis Suc_diff_le Suc_eq_plus1 append_Cons append_Nil diff_Suc_Suc replicate_Suc)
    ultimately show ?thesis by (simp add: h)
  qed
qed



context allocator
begin

text \<open>\<open>mk_dt_string\<close> in any environment that satisfies the allocator's laws.\<close>

lemma mk_dt_string_rule:
  assumes a: "A m w" and fits: "\<And>s. name = Some s \<Longrightarrow> cstr_fits s"
    and big: "\<And>s. name = Some s \<Longrightarrow> faulty \<or> 4 + round8 (length s + 1) \<le> ptrdiff_max"
    and null: "\<And>w'. A m w' \<Longrightarrow> name = None \<or> faulty \<Longrightarrow> Q (-1, None) w'"
    and ok: "\<And>s w' i. name = Some s \<Longrightarrow> A (m(i \<mapsto> dt_string_param s)) w' \<Longrightarrow> m i = None \<Longrightarrow>
      Q (0, Some (Ptr i, of_nat (length (dt_string_param s)))) w'"
  shows "runs blk (mk_dt_string name w) Q"
proof (cases name)
  case None
  with a null show ?thesis by (simp add: mk_dt_string_def wp_simps)
next
  case (Some s)
  define n where "n = round8 (length s + 1)"
  define ln where "ln = extend_len_name (of_nat (length s) + 1)"
  have u: "unat ln = n" "unat (4 + ln) = 4 + n"
    using len_name_facts [OF fits [OF Some]] by (simp_all add: n_def ln_def)
  have n: "length s + 1 \<le> n" using round8_bounds(1) by (simp add: n_def)
  have lp: "length (dt_string_param s) = 4 + n" by (simp add: length_dt_string_param n_def)
  have w: "of_nat (length (dt_string_param s)) = 4 + ln"
  proof -
    have "of_nat (unat (4 + ln)) = 4 + ln" by simp
    then show ?thesis by (simp only: lp u)
  qed
  have dvd: "(4 + ln) AND 3 = 0"
  proof -
    have "(4 + ln) AND 3 = take_bit 2 (4 + ln)"
      using take_bit_eq_mask [of 2 "4 + ln"] by (simp add: mask_eq_exp_minus_1)
    moreover have "unat (take_bit 2 (4 + ln)) = take_bit 2 (unat (4 + ln))"
      by (simp only: unsigned_take_bit_eq)
    moreover have "take_bit 2 (4 + n) = 0"
      using round8_bounds(4) [of "length s + 1"] by (simp add: n_def take_bit_eq_mod mod_eq_0_iff_dvd)
    ultimately show ?thesis using u by (metis unat_eq_0 word_unat_eq_iff)
  qed
  have dt: "ucast ln = (of_nat n :: u32)"
  proof -
    have "of_nat (unat ln) = (ucast ln :: u32)" by simp
    then show ?thesis by (simp only: u)
  qed
  have dts: "dt_string_param s = le32 (SET_PAR DT_STRING (of_nat n)) @ s @ replicate (n - length s) 0"
    by (simp add: dt_string_param_def n_def Let_def)
  show ?thesis
    unfolding mk_dt_string_def Some option.case Let_def wp_simps ln_def [symmetric]
  proof (rule memalign [OF a], goal_cases)
    case 1
    show ?case using big [OF Some] u by (simp add: n_def)
  next
    case (2 w')
    then show ?case by (simp add: wp_simps null)
  next
    case (3 w' i b)
    have final: "take 4 h @ (s @ [0]) @ drop (4 + length (s @ [0])) h = dt_string_param s"
      if "h = take 0 z @ le32 hw @ drop (0 + length (le32 hw)) z"
        and "z = take 0 b @ replicate (unat (4 + ln)) 0 @ drop (0 + length (replicate (unat (4 + ln)) (0::byte))) b"
        and "hw = SET_PAR DT_STRING (ucast ln)" for h z hw
      using dt_string_stores [OF n_def [symmetric], of b hw] 3(3) that
      by (simp add: u dts dt)
    show ?case
      apply (simp add: wp_simps dvd header_word_trunc)
      apply (rule store, fact 3(1), simp, simp add: 3)
      apply (rule store, assumption, simp, simp add: u)
      apply (rule store, assumption, simp, use n in \<open>simp add: u\<close>)
      using ok [OF Some _ 3(2)] final [OF refl refl refl]
      by (simp add: w)
  qed
qed

end

lemma runs_mk_dt_string [vcg]:
  assumes "since sock w0 m w" and "\<And>s. name = Some s \<Longrightarrow> cstr_fits s"
    and "\<And>w'. since sock w0 m w' \<Longrightarrow> Q (-1, None) w'"
    and "\<And>s w' i. name = Some s \<Longrightarrow> since sock w0 (m(i \<mapsto> dt_string_param s)) w' \<Longrightarrow> m i = None \<Longrightarrow>
      Q (0, Some (Ptr i, of_nat (length (dt_string_param s)))) w'"
  shows "runs blk (mk_dt_string name w) Q"
  by (rule any_env.mk_dt_string_rule [OF assms(1)]) (use assms in auto)

lemma runs_mk_dt_string_online [vcg_online]:
  assumes "online sock w0 m bs out w" and "length s < 2 ^ 31"
    and "\<And>w' i. online sock w0 (m(i \<mapsto> dt_string_param s)) bs out w' \<Longrightarrow> m i = None \<Longrightarrow>
      Q (0, Some (Ptr i, of_nat (length (dt_string_param s)))) w'"
  shows "runs blk (mk_dt_string (Some s) w) Q"
  by (rule healthy_env.mk_dt_string_rule [OF assms(1)])
    (use assms round8_bounds(2) [of "length s + 1"] in \<open>auto simp: cstr_fits_def ptrdiff_max_def\<close>)

section \<open>Properties\<close>

text \<open>C11. \<open>mk_dt_string\<close> has no undefined behaviour for any string and allocator: it returns a fresh block
  that holds the padded parameter and its exact length, or -1 (for the null pointer or when memory is
  short) and leaves the heap alone.\<close>

theorem mk_dt_string_correct:
  assumes "wf_heap w" and "\<And>s. name = Some s \<Longrightarrow> cstr_fits s"
  shows "runs False (mk_dt_string name w) (\<lambda>(st, out) w'.
    st = -1 \<and> out = None \<and> heap w' = heap w \<or>
    (\<exists>s i. name = Some s \<and> st = 0 \<and> out = Some (Ptr i, of_nat (length (dt_string_param s))) \<and>
       heap w i = None \<and> heap w' = (heap w)(i \<mapsto> dt_string_param s)))"
  by (rule runs_mk_dt_string [OF since_start [OF assms(1)], where sock = 0])
    (use assms(2) in \<open>auto dest: since_heap [OF assms(1)] since_one_self [OF assms(1)]\<close>)

theorem mk_dt_string_correct_witness:
  "runs False (mk_dt_string (Some (lit ''x'')) (peer_world [])) (\<lambda>(st, out) w'.
    st = -1 \<and> out = None \<and> heap w' = Map.empty \<or>
    (\<exists>i. st = 0 \<and> out = Some (Ptr i, of_nat (length (dt_string_param (lit ''x'')))) \<and>
       heap w' = [i \<mapsto> dt_string_param (lit ''x'')]))"
  using mk_dt_string_correct [of "peer_world []" "Some (lit ''x'')"]
  by (simp add: cstr_fits_def)

text \<open>The parameter is what the protocol asks for and reads back: type \<open>DT_STRING\<close>, a length word that is
  the rest of the parameter and a multiple of 8 (the comment asks for 4 more), the string behind it.\<close>

theorem dt_string_reads_back:
  assumes "no_nul s" and "length s + 8 < 2 ^ 24"
  shows "PAR_TYPE (u32_at (dt_string_param s) 0) = DT_STRING \<and>
    unat (PAR_LEN (u32_at (dt_string_param s) 0)) + 4 = length (dt_string_param s) \<and>
    takeWhile (\<lambda>b. b \<noteq> 0) (drop 4 (dt_string_param s)) = s \<and>
    length (dt_string_param s) mod 8 = 4"
proof -
  define n where "n = round8 (length s + 1)"
  have n: "length s < n" "n < 2 ^ 24" "n mod 8 = 0"
    using round8_bounds [of "length s + 1"] assms(2) by (simp_all add: n_def)
  define p where "p = dt_string_param s"
  have p: "p = le32 (SET_PAR DT_STRING (of_nat n)) @ s @ replicate (n - length s) 0"
    by (simp add: p_def dt_string_param_def n_def Let_def)
  have ty: "PAR_TYPE (u32_at p 0) = DT_STRING"
    unfolding p u32_at_0 PAR_TYPE_SET_PAR by (simp add: DT_STRING_def)
  have "unat (of_nat n AND 0xffffff :: u32) = n"
    using n(2) unfolding and_mask24
    by (simp add: unsigned_take_bit_eq unsigned_of_nat take_bit_nat_eq_self)
  then have ln: "unat (PAR_LEN (u32_at p 0)) + 4 = length p"
    unfolding p u32_at_0 PAR_LEN_SET_PAR using n(1) by simp
  have "replicate (n - length s) (0 :: byte) = 0 # replicate (n - length s - 1) 0"
    using n(1) by (cases "n - length s") simp_all
  then have str: "takeWhile (\<lambda>b. b \<noteq> 0) (drop 4 p) = s" using assms(1) by (simp add: p)
  have "length p = n + 4" using n(1) by (simp add: p)
  then have "length p mod 8 = 4" using n(3) by presburger
  with ty ln str show ?thesis unfolding p_def by blast
qed

theorem dt_string_reads_back_witness:
  "takeWhile (\<lambda>b. b \<noteq> 0) (drop 4 (dt_string_param (lit ''x <- 1''))) = lit ''x <- 1''"
  using dt_string_reads_back [of "lit ''x <- 1''"] by simp

end
