(* ===== verification/Rpc.thy ===== *)
theory Rpc
  imports Request
begin

text \<open>
  What \<open>exec_str\<close>, \<open>get_F8\<close>, \<open>get_I4\<close>, \<open>get_vec\<close> and \<open>get_named_vec_F8\<close> have in common, line for line:
  the name becomes a parameter block, a header for it is filled and sent, the parameter is sent and
  freed. And what is on the wire then and in the answers: \<open>request\<close>, \<open>sexp_reply\<close> and the contents
  of the arrays. The interface \<open>channel\<close> is what sending may rely on.
\<close>

section \<open>Preparing and sending a request\<close>

text \<open>The local of these functions that their BYE sections free; each function extends it.\<close>

record param_vars =
  ev_param1 :: ptr

text \<open>\<open>free_if_non_null(param1)\<close> in the middle of a body: the variable is null afterwards.\<close>

definition free_param1 :: "(unit, 'r, 'l param_vars_scheme, world) cmd" where
  "free_param1 = chain (get_loc ev_param1) (\<lambda>p.
                 chain (call (sys_free p)) (\<lambda>_.
                 upd_loc (\<lambda>l. l\<lparr>ev_param1 := Null\<rparr>)))"

text \<open>An automatic \<open>struct phdr\<close> before it is set; \<open>mk_hdr\<close> overwrites every field before any use.\<close>

definition fresh_phdr :: phdr where
  "fresh_phdr = \<lparr>cmd = 0, len = 0, msg_id = 0, res = 0\<rparr>"


text \<open>\<open>mk_dt_string(name, &param1, &len_param1)\<close>; the value is \<open>len_param1\<close>.\<close>

definition prepare_param :: "cstr option \<Rightarrow> (size_t, 'r, 'l param_vars_scheme, world) cmd" where
  "prepare_param name =
     chain (call (mk_dt_string name)) (\<lambda>(status, param).
     chain (upd_loc (\<lambda>l. case param of None \<Rightarrow> l | Some (p, _) \<Rightarrow> l\<lparr>ev_param1 := p\<rparr>)) (\<lambda>_.
     chain (cBYE status) (\<lambda>_.
     done_with (case param of None \<Rightarrow> 0 | Some (_, n) \<Rightarrow> n))))"

text \<open>The header of a packet with \<open>payload_len\<close> bytes behind it; the value is the header sent.\<close>

definition send_header :: "int \<Rightarrow> cstr \<Rightarrow> size_t \<Rightarrow> (phdr, 'r, 'l param_vars_scheme, world) cmd" where
  "send_header sock r_cmd payload_len =
     (let (status, ph) = mk_hdr (Some r_cmd) (to_int payload_len) (Some fresh_phdr) in
      chain (cBYE status) (\<lambda>_.
      chain (call (sys_send sock (enc_phdr (the ph)))) (\<lambda>num_sent.
      chain (bye_when (size_of_int num_sent \<noteq> of_nat HDR_LEN) (-1)) (\<lambda>_.
      done_with (the ph)))))"

text \<open>The parameter, and \<open>free_if_non_null(param1)\<close>.\<close>

definition send_param :: "int \<Rightarrow> size_t \<Rightarrow> (unit, 'r, 'l param_vars_scheme, world) cmd" where
  "send_param sock len_param1 =
     chain (get_loc ev_param1) (\<lambda>param1.
     chain (call (load param1 0 (unat len_param1))) (\<lambda>bytes.
     chain (call (sys_send sock bytes)) (\<lambda>num_sent.
     chain (bye_when (size_of_int num_sent \<noteq> len_param1) (-1)) (\<lambda>_.
     free_param1))))"

definition send_request :: "int \<Rightarrow> cstr \<Rightarrow> size_t \<Rightarrow> (phdr, 'r, 'l param_vars_scheme, world) cmd" where
  "send_request sock r_cmd len_param1 =
     (let payload_len = len_param1 in
      chain (send_header sock r_cmd payload_len) (\<lambda>ph.
      chain (send_param sock len_param1) (\<lambda>_.
      done_with ph)))"

section \<open>What goes over the wire\<close>

text \<open>A request packet: the header and its parameters; and the packet \<open>exec_str\<close> sends.\<close>

definition request :: "u32 \<Rightarrow> byte list \<Rightarrow> byte list" where
  "request c payload =
     enc_phdr \<lparr>cmd = c, len = of_nat (length payload), msg_id = 0, res = 0\<rparr> @ payload"

definition eval_request :: "bool \<Rightarrow> cstr \<Rightarrow> byte list" where
  "eval_request want_output s =
     request (if want_output then CMD_eval else CMD_voidEval) (dt_string_param s)"

text \<open>
  A response, from the comments of Rsrv.h: a header, and for a result one \<open>DT_SEXP\<close> parameter that
  holds one expression, each with a header word of type and length.
\<close>

definition sexp :: "u32 \<Rightarrow> byte list \<Rightarrow> byte list" where
  "sexp xt content = le32 (SET_PAR xt (of_nat (length content))) @ content"

definition dt_sexp_param :: "byte list \<Rightarrow> byte list" where
  "dt_sexp_param x = le32 (SET_PAR DT_SEXP (of_nat (length x))) @ x"

definition response :: "u32 \<Rightarrow> byte list \<Rightarrow> byte list" where
  "response c payload =
     enc_phdr \<lparr>cmd = c, len = of_nat (length payload), msg_id = 0, res = 0\<rparr> @ payload"

definition sexp_reply :: "u32 \<Rightarrow> byte list \<Rightarrow> byte list" where
  "sexp_reply xt content = response RESP_OK (dt_sexp_param (sexp xt content))"

text \<open>
  The contents of the arrays the client reads, as the list of XT codes in Rsrv.h gives them: integers
  back to back; logicals as a count and one byte each (0, 1, or 2 for a missing value) padded with
  \<open>0xff\<close>; strings each with its NUL, padded with 1.
\<close>

definition pad4 :: "byte \<Rightarrow> byte list \<Rightarrow> byte list" where
  "pad4 fill bs = bs @ replicate ((3 * length bs) mod 4) fill"

definition int_array :: "u32 list \<Rightarrow> byte list" where
  "int_array vs = concat (map le32 vs)"

definition bool_array :: "byte list \<Rightarrow> byte list" where
  "bool_array vs = le32 (of_nat (length vs)) @ pad4 0xff vs"

definition str_array :: "cstr list \<Rightarrow> byte list" where
  "str_array ss = pad4 1 (concat (map (\<lambda>s. s @ [0]) ss))"

text \<open>
  \<open>fits_packet n\<close>: a content of \<open>n\<close> bytes whose packet length is a positive \<open>int\<close>.
\<close>

definition fits_packet :: "nat \<Rightarrow> bool" where
  "fits_packet n \<longleftrightarrow> n + 24 < 2 ^ 31"

lemma size_of_int_of_nat: "size_of_int (int n) = of_nat n"
  by (simp add: size_of_int_def)

lemma of_nat_eq_size: "n < 2 ^ 64 \<Longrightarrow> k < 2 ^ 64 \<Longrightarrow> (of_nat n :: size_t) = of_nat k \<longleftrightarrow> n = k"
  by (auto simp: word_unat_eq_iff unsigned_of_nat take_bit_nat_eq_self)

lemma unat_of_nat_u32: "n < 2 ^ 32 \<Longrightarrow> unat (of_nat n :: u32) = n"
  by (simp add: unsigned_of_nat take_bit_nat_eq_self)

lemma sint_of_nat_u32: "n < 2 ^ 31 \<Longrightarrow> sint (of_nat n :: u32) = int n"
  using to_int_of_nat [where 'a = 32, of n] by (simp add: to_int_def)

lemma size_of_int_simps [simp]:
  "size_of_int (int n) = of_nat n" "size_of_int (numeral k) = numeral k" "size_of_int 0 = 0"
  by (simp_all add: size_of_int_def)

lemma to_int_le: "to_int w \<le> uint (w :: 'a::len word)"
proof -
  have "to_int w = signed_take_bit 31 (uint (ucast w :: u32))"
    by (simp add: to_int_def sint_uint)
  also have "\<dots> \<le> uint (ucast w :: u32)"
    by (simp add: signed_take_bit_int_less_eq_self_iff) (rule order_trans [OF _ unsigned_greater_eq], simp)
  also have "\<dots> \<le> uint w"
    by (simp add: unsigned_ucast_eq take_bit_int_less_eq_self_iff)
  finally show ?thesis .
qed

lemma to_int_minus_1: "to_int (-1 :: size_t) = -1"
proof -
  have "(ucast (-1 :: size_t) :: u32) = -1" by (rule bit_word_eqI) (simp add: bit_simps)
  then show ?thesis by (simp add: to_int_def)
qed

lemma fits_packet_cstr: "fits_packet (length s) \<Longrightarrow> cstr_fits s"
  by (simp add: fits_packet_def cstr_fits_def)

text \<open>The two words before a content of \<open>n\<close> bytes, and what they are read as.\<close>

definition sexp_words :: "u32 \<Rightarrow> nat \<Rightarrow> byte list" where
  "sexp_words xt n = le32 (SET_PAR DT_SEXP (of_nat (n + 4))) @ le32 (SET_PAR xt (of_nat n))"

lemma length_sexp_words [simp]: "length (sexp_words xt n) = 8" "sexp_words xt n \<noteq> []"
  by (simp_all add: sexp_words_def)

text \<open>A header word taken apart.\<close>

lemma header_word:
  "unat ty < 256 \<Longrightarrow> SET_PAR ty l AND 0xFF = ty"
  "k < 2 ^ 24 \<Longrightarrow> drop_bit 8 (SET_PAR ty (of_nat k)) = (of_nat k :: u32)"
proof -
  show "SET_PAR ty l AND 0xFF = ty" if "unat ty < 256"
  proof -
    have "ty AND 255 = ty"
      using that unfolding and_255 word_unat_eq_iff by (simp add: unsigned_take_bit_eq take_bit_nat_eq_self)
    then show ?thesis using PAR_TYPE_SET_PAR [of ty l] unfolding PAR_TYPE_def by simp
  qed
  show "drop_bit 8 (SET_PAR ty (of_nat k)) = (of_nat k :: u32)" if "k < 2 ^ 24"
  proof -
    have "unat (of_nat k AND 0xffffff :: u32) = k"
      using that unfolding and_mask24 by (simp add: unsigned_take_bit_eq unsigned_of_nat take_bit_nat_eq_self)
    moreover have "unat (of_nat k :: u32) = k" using that by (simp add: unat_of_nat_u32)
    ultimately have "of_nat k AND 0xffffff = (of_nat k :: u32)" by (simp only: word_unat_eq_iff)
    then show ?thesis using PAR_LEN_SET_PAR [of ty "of_nat k"] unfolding PAR_LEN_def by simp
  qed
qed

lemma sexp_words_at:
  "u32_at (sexp_words xt n) 0 AND 0xFF = DT_SEXP"
  "unat xt < 256 \<Longrightarrow> u32_at (sexp_words xt n) 1 AND 0xFF = xt"
  "n < 2 ^ 24 \<Longrightarrow> drop_bit 8 (u32_at (sexp_words xt n) 1) = of_nat n"
  using header_word(1) [of DT_SEXP] header_word(1) [of xt] header_word(2) [of n xt]
  by (simp_all add: sexp_words_def layout_simps DT_SEXP_def)

lemmas sexp_words_simps [simp] = sexp_words_at [simplified]

lemma sexp_reply_words:
  "sexp_reply xt d = enc_phdr \<lparr>cmd = RESP_OK, len = of_nat (length d + 8), msg_id = 0, res = 0\<rparr> @
     sexp_words xt (length d) @ d"
  by (simp add: sexp_reply_def response_def dt_sexp_param_def sexp_def sexp_words_def add.commute)

lemma sexp_reply_not_Nil [simp]: "sexp_reply xt d \<noteq> []"
  by (simp add: sexp_reply_words)

lemma dt_string_length_bound: "cstr_fits s \<Longrightarrow> length (dt_string_param s) < 2 ^ 64"
  using round8_bounds(2) [of "length s + 1"] by (simp add: length_dt_string_param cstr_fits_def)

lemma dt_string_unat [simp]:
  "cstr_fits s \<Longrightarrow> unat (of_nat (length (dt_string_param s)) :: size_t) = length (dt_string_param s)"
  by (rule unat_of_nat_size) (rule dt_string_length_bound)

text \<open>\<open>serves sock reply rest w\<close>: the peer of \<open>sock\<close> answers with \<open>reply\<close>, and everything allocated and
  sent succeeds.\<close>

definition serves :: "int \<Rightarrow> byte list \<Rightarrow> byte list \<Rightarrow> world \<Rightarrow> bool" where
  "serves sock reply rest w \<longleftrightarrow>
     0 \<le> sock \<and> wf_heap w \<and> healthy sock w \<and> pending sock w = Some (reply @ rest)"

text \<open>The round trip: the request has gone out, the reply has been consumed, memory is as before.\<close>

definition served :: "int \<Rightarrow> byte list \<Rightarrow> byte list \<Rightarrow> world \<Rightarrow> world \<Rightarrow> bool" where
  "served sock req rest w w' \<longleftrightarrow>
     heap w' = heap w \<and> pending sock w' = Some rest \<and> sent sock w' = sent sock w @ req"

lemma servesD:
  "serves sock reply rest w \<Longrightarrow> online sock w Map.empty (reply @ rest) (sent sock w) w"
  by (simp add: serves_def online_start)

lemma servedI:
  "wf_heap w \<Longrightarrow> online sock w Map.empty rest (sent sock w @ req) w' \<Longrightarrow> served sock req rest w w'"
  unfolding served_def online_def by (auto intro: since_heap)

lemma dt_string_param_small: "cstr_fits s \<Longrightarrow> length (dt_string_param s) < 2 ^ 63"
  using round8_bounds(2) [of "length s + 1"] by (simp add: length_dt_string_param cstr_fits_def)

text \<open>Comparing the \<open>size_t\<close> of a \<open>send\<close>'s result with the length sent tells complete sends from others.\<close>

lemma sent_full: "size_of_int (int k) = of_nat k"
  by simp

lemma sent_short:
  assumes "r = -1 \<or> 0 \<le> r \<and> r < int k" "k < 2 ^ 63"
  shows "size_of_int r \<noteq> of_nat k"
proof (cases "r = -1")
  case True
  have "unat (-1 :: size_t) = 2 ^ 64 - 1" by (simp add: unsigned_minus_1_eq_mask mask_eq_exp_minus_1)
  moreover have "unat (of_nat k :: size_t) = k" using assms(2) by (intro unat_of_nat_size) simp
  ultimately have "(-1 :: size_t) \<noteq> of_nat k" using assms(2) by (auto simp: word_unat_eq_iff)
  with True show ?thesis by (simp add: size_of_int_def)
next
  case False
  with assms obtain j where "r = int j" "j < k" by (metis nonneg_int_cases of_nat_less_iff)
  with assms(2) show ?thesis using of_nat_eq_size [of j k] by (simp add: size_of_int_of_nat)
qed

section \<open>Sending as an interface\<close>

text \<open>
  \<open>A out m w\<close>: an assertion about the bytes sent so far and the blocks owned. A send takes all bytes,
  or, where the environment is \<open>faulty\<close>, some of them or none.
\<close>

locale channel =
  fixes A :: "byte list \<Rightarrow> blocks \<Rightarrow> world \<Rightarrow> bool"
    and faulty :: bool
    and sock :: int
  assumes alloc: "allocator (A out) faulty"
    and send: "A out m w \<Longrightarrow>
      (\<And>r out' w'. faulty \<Longrightarrow> A out' m w' \<Longrightarrow> r = -1 \<or> 0 \<le> r \<and> r < int (length xs) \<Longrightarrow> Q r w') \<Longrightarrow>
      (\<And>w'. A (out @ xs) m w' \<Longrightarrow> Q (int (length xs)) w') \<Longrightarrow>
      runs blk (sys_send sock xs w) Q"

sublocale channel \<subseteq> mem: allocator "A out" faulty for out
  by (rule alloc)

context channel
begin

lemma prepare_param_rule:
  assumes a: "A out m w" and p: "ev_param1 l = Null"
    and fits: "\<And>s. name = Some s \<Longrightarrow> cstr_fits s"
    and big: "\<And>s. name = Some s \<Longrightarrow> faulty \<or> 4 + round8 (length s + 1) \<le> ptrdiff_max"
    and B: "\<And>w'. A out m w' \<Longrightarrow> name = None \<or> faulty \<Longrightarrow> B (-1) l w'"
    and Q: "\<And>s i w'. name = Some s \<Longrightarrow> A out (m(i \<mapsto> dt_string_param s)) w' \<Longrightarrow> m i = None \<Longrightarrow>
      Q (of_nat (length (dt_string_param s))) (l\<lparr>ev_param1 := Ptr i\<rparr>) w'"
  shows "wp blk (prepare_param name) Q B R l w"
  unfolding prepare_param_def wp_simps
  by (rule mem.mk_dt_string_rule [OF a fits big]) (auto simp: wp_simps intro: B Q)

lemma send_header_rule:
  assumes a: "A out m w" and n: "unat n = k" "k < 2 ^ 63" "faulty \<or> k < 2 ^ 31"
    and c: "command_code r_cmd = Some code"
    and B: "\<And>st out' w'. faulty \<Longrightarrow> A out' m w' \<Longrightarrow> st < 0 \<Longrightarrow> B st l w'"
    and Q: "\<And>w' ph. A (out @ enc_phdr ph) m w' \<Longrightarrow>
      ph = \<lparr>cmd = code, len = of_nat k, msg_id = 0, res = 0\<rparr> \<Longrightarrow> Q ph l w'"
  shows "wp blk (send_header sock r_cmd n) Q B R l w"
proof -
  have nk: "n = of_nat k" using n(1,2) by (auto simp: word_unat_eq_iff unat_of_nat_size)
  have word: "word_of_int (to_int n) = (of_nat k :: u32)"
  proof -
    have "(ucast (of_nat k :: size_t) :: u32) = of_nat k"
      by (rule bit_word_eqI) (auto simp: bit_simps)
    then show ?thesis unfolding nk to_int_def by simp
  qed
  show ?thesis
  proof (cases "to_int n < 0")
    case True
    then have faulty using n nk by (auto simp: to_int_of_nat)
    then show ?thesis
      using B [OF _ a] True by (simp add: send_header_def wp_simps Let_def mk_hdr_negative)
  next
    case False
    then have pos: "0 \<le> to_int n" by simp
    have h: "size_of_int r \<noteq> 16" if "r = -1 \<or> 0 \<le> r \<and> r < 16" for r
      using sent_short [of r 16] that by simp
    show ?thesis
      unfolding send_header_def Let_def mk_hdr_known [OF c pos] wp_simps prod.case option.sel word HDR_LEN_def
      apply (simp only: less_irrefl if_False)
      apply (rule send [OF a])
       apply (simp add: h B)
      apply (simp add: sent_full wp_simps)
      apply (rule Q, assumption, simp)
      done
  qed
qed

lemma send_param_rule:
  assumes a: "A out (m(i \<mapsto> b)) w" and i: "m i = None" and p: "ev_param1 l = Ptr i"
    and n: "n = of_nat (length b)" "length b < 2 ^ 63"
    and B: "\<And>st out' w'. faulty \<Longrightarrow> A out' (m(i \<mapsto> b)) w' \<Longrightarrow> st < 0 \<Longrightarrow> B st l w'"
    and Q: "\<And>w'. A (out @ b) m w' \<Longrightarrow> Q () (l\<lparr>ev_param1 := Null\<rparr>) w'"
  shows "wp blk (send_param sock n) Q B R l w"
proof -
  have u: "unat n = length b" using n by (simp add: unat_of_nat_size)
  have q: "size_of_int r \<noteq> of_nat (length b)" if "r = -1 \<or> 0 \<le> r \<and> r < int (length b)" for r
    using sent_short [OF that n(2)] .
  show ?thesis
    unfolding send_param_def wp_simps free_param1_def p u
    apply (rule mem.load [OF a], simp, simp)
    apply (rule send [OF a])
     apply (simp add: n q B)
    apply (simp add: sent_full wp_simps p n)
    apply (rule mem.free, assumption, simp)
    apply (rule Q)
    apply (simp add: i)
    done
qed

lemma send_param_rule_at:
  assumes "A out m w" and "m i = Some b" and "ev_param1 l = Ptr i" and "n = of_nat (length b)" "length b < 2 ^ 63"
    and B: "\<And>st out' w'. faulty \<Longrightarrow> A out' m w' \<Longrightarrow> st < 0 \<Longrightarrow> B st l w'"
    and Q: "\<And>w'. A (out @ b) (m(i := None)) w' \<Longrightarrow> Q () (l\<lparr>ev_param1 := Null\<rparr>) w'"
  shows "wp blk (send_param sock n) Q B R l w"
proof -
  have m: "m = (m(i := None))(i \<mapsto> b)" using assms(2) by auto
  show ?thesis
    by (rule send_param_rule [where m = "m(i := None)" and i = i and b = b]) (use assms m in auto)
qed

lemma send_request_rule:
  assumes a: "A out (m(i \<mapsto> b)) w" and i: "m i = None" and p: "ev_param1 l = Ptr i"
    and n: "n = of_nat (length b)" "length b < 2 ^ 63" "faulty \<or> length b < 2 ^ 31"
    and c: "command_code r_cmd = Some code"
    and B: "\<And>st out' w'. faulty \<Longrightarrow> A out' (m(i \<mapsto> b)) w' \<Longrightarrow> st < 0 \<Longrightarrow> B st l w'"
    and Q: "\<And>w'. A (out @ request code b) m w' \<Longrightarrow>
      Q \<lparr>cmd = code, len = of_nat (length b), msg_id = 0, res = 0\<rparr> (l\<lparr>ev_param1 := Null\<rparr>) w'"
  shows "wp blk (send_request sock r_cmd n) Q B R l w"
  unfolding send_request_def Let_def wp_simps
proof (rule send_header_rule [OF a, where k = "length b"])
  fix w' ph
  assume "A (out @ enc_phdr ph) (m(i \<mapsto> b)) w'" "ph = \<lparr>cmd = code, len = of_nat (length b), msg_id = 0, res = 0\<rparr>"
  then show "wp blk (send_param sock n) (\<lambda>_. Q ph) B R l w'"
    by (intro send_param_rule [where m = m and i = i and b = b]) (use i p n in \<open>auto simp: request_def intro!: B Q\<close>)
qed (use n c in \<open>auto simp: unat_of_nat_size intro: B\<close>)

text \<open>Both in a row, as most functions have them.\<close>

lemma request_rule:
  assumes a: "A out m w" and p: "ev_param1 l = Null" and c: "command_code r_cmd = Some code"
    and fits: "cstr_fits s" "faulty \<or> fits_packet (length s)"
    and B: "\<And>st out' w'. faulty \<Longrightarrow> A out' m w' \<Longrightarrow> st < 0 \<Longrightarrow> B st l w'"
    and B': "\<And>st i b out' w'. faulty \<Longrightarrow> A out' (m(i \<mapsto> b)) w' \<Longrightarrow> m i = None \<Longrightarrow> st < 0 \<Longrightarrow> B st (l\<lparr>ev_param1 := Ptr i\<rparr>) w'"
    and Q: "\<And>ph w'. A (out @ request code (dt_string_param s)) m w' \<Longrightarrow> Q ph l w'"
  shows "wp blk (prepare_param (Some s)) (\<lambda>n l' w'. wp blk (send_request sock r_cmd n) Q B R l' w') B R l w"
proof -
  have l: "l\<lparr>ev_param1 := Null\<rparr> = l" using p by (cases l) simp
  have big: "faulty \<or> 4 + round8 (length s + 1) \<le> ptrdiff_max" "faulty \<or> length (dt_string_param s) < 2 ^ 31"
    using fits(2) round8_bounds(2) [of "length s + 1"]
    by (auto simp: fits_packet_def ptrdiff_max_def length_dt_string_param)
  show ?thesis
  proof (rule prepare_param_rule [OF a p], goal_cases)
    case (4 s' i w')
    then show ?case
      by (intro send_request_rule [where b = "dt_string_param s" and m = m and i = i and out = out])
        (use fits big c in \<open>auto simp: l dt_string_param_small [simplified] intro!: B' Q\<close>)
  qed (use fits big in \<open>auto intro: B\<close>)
qed

end

interpretation any_channel: channel "\<lambda>out. since sock w0" True sock for sock w0
proof (rule channel.intro)
  show "allocator (since sock w0) True" for out :: "byte list" by (rule any_env.allocator_axioms)
next
  fix m w blk and xs :: "byte list" and Q :: "int \<Rightarrow> world \<Rightarrow> bool"
  assume s: "since sock w0 m w" and full: "\<And>w'. since sock w0 m w' \<Longrightarrow> Q (int (length xs)) w'"
    and short: "\<And>r out' w'. True \<Longrightarrow> since sock w0 m w' \<Longrightarrow> r = -1 \<or> 0 \<le> r \<and> r < int (length xs) \<Longrightarrow> Q r w'"
  show "runs blk (sys_send sock xs w) Q"
  proof (rule runs_sys_send [OF s])
    fix r w'
    assume w': "since sock w0 m w'" and r: "r = -1 \<or> 0 \<le> r \<and> r \<le> int (length xs)"
    show "Q r w'"
      by (cases "r = int (length xs)") (use full short w' r in auto)
  qed
qed

interpretation healthy_channel: channel "\<lambda>out m w. online sock w0 m bs out w" False sock for sock w0 bs
  by unfold_locales (auto intro: runs_sys_malloc_online runs_free_Ptr_online runs_store_online
      runs_load_str_online runs_load_online runs_sys_send_online)

section \<open>Lending the caller's array\<close>

text \<open>
  The elements are read from a block that the code does not own: the interface \<open>channel\<close>, extended by
  blocks that are \<open>lent\<close> and stay as they are.
\<close>

locale lender = channel +
  fixes lent :: blocks
  assumes lent: "A out m w \<Longrightarrow> lent j = Some d \<Longrightarrow> heap w j = Some d"
begin

lemma load_lent:
  "A out m w \<Longrightarrow> lent j = Some d \<Longrightarrow> off + k \<le> length d \<Longrightarrow> S (take k (drop off d)) w \<Longrightarrow>
   runs blk (load (Ptr j) off k w) S"
  using lent [of out m w j d] by (simp add: load_def)

end

definition older :: "world \<Rightarrow> blocks" where
  "older w0 j = (if j < next_id w0 then heap w0 j else None)"

lemma since_older: "since sock w0 m w \<Longrightarrow> older w0 j = Some d \<Longrightarrow> heap w j = Some d"
  by (auto simp: since_def older_def split: if_splits)

lemma older_wf: "wf_heap w0 \<Longrightarrow> older w0 = heap w0"
  by (rule ext) (auto simp: older_def wf_heap_def)

interpretation any_lender: lender "\<lambda>out. since sock w0" True sock "older w0" for sock w0
  by unfold_locales (rule since_older)

interpretation healthy_lender: lender "\<lambda>out m w. online sock w0 m bs out w" False sock "older w0" for sock w0 bs
  by unfold_locales (rule since_older, erule online_since)

section \<open>Reading as an interface\<close>

text \<open>
  A healthy environment from the reader's side: \<open>A bs\<close> says that the bytes \<open>bs\<close> are still to come, and
  \<open>get_buf_from_sock\<close> delivers them in order. There are two instances: \<open>online\<close>, which does not know how the
  bytes are grouped, and \<open>whole\<close> of theory Segment, which does.
\<close>

locale reader =
  fixes A :: "byte list \<Rightarrow> byte list \<Rightarrow> blocks \<Rightarrow> world \<Rightarrow> bool"
    and sock :: int
    and lent :: blocks
  assumes sender: "lender (A bs) False sock lent"
    and block: "A bs out m w \<Longrightarrow> m i = Some b \<Longrightarrow> heap w i = Some b"
    and recv: "A (xs @ bs) out m w \<Longrightarrow> xs \<noteq> [] \<Longrightarrow> length xs \<le> cap \<Longrightarrow> 0 \<le> sock \<Longrightarrow>
      (\<And>w'. A bs out m w' \<Longrightarrow> Q (0, xs, Some (int (length xs))) w') \<Longrightarrow>
      runs blk (get_buf_from_sock sock (Some cap) (int (length xs)) w) Q"

sublocale reader \<subseteq> snd: lender "A bs" False sock lent for bs
  by (rule sender)

context reader
begin

lemma recv_n:
  "A (xs @ bs) out m w \<Longrightarrow> n = int (length xs) \<Longrightarrow> xs \<noteq> [] \<Longrightarrow> length xs \<le> cap \<Longrightarrow> 0 \<le> sock \<Longrightarrow>
   (\<And>w'. A bs out m w' \<Longrightarrow> Q (0, xs, Some n) w') \<Longrightarrow> runs blk (get_buf_from_sock sock (Some cap) n w) Q"
  using recv [of xs bs out m w cap Q blk] by simp

lemma read_hdr_rule:
  assumes "A (enc_phdr ph @ bs) out m w" "0 \<le> sock" and Q: "\<And>w'. A bs out m w' \<Longrightarrow> Q (0, ph) w'"
  shows "runs blk (read_hdr sock ph0 w) Q"
  unfolding read_hdr_def runs_obind HDR_LEN_def
  by (rule recv_n [OF assms(1)]) (use assms(2) in \<open>auto intro!: Q simp: layout_simps\<close>)

lemma recv_block:
  assumes a: "A (d @ bs) out m w" and i: "m i = Some c" "length c = length d" and sock: "0 \<le> sock" and n: "n = int (length d)"
    and Q: "\<And>w' nr. A bs out (m(i \<mapsto> d)) w' \<Longrightarrow> Q (0, nr) w'"
  shows "runs blk (get_buf_heap sock (Ptr i) n w) Q"
proof (cases "d = []")
  case True
  have "A bs out (m(i \<mapsto> d)) w" using a True i by (simp add: fun_upd_idem)
  then have "Q (0, None) w" by (rule Q)
  moreover have "w\<lparr>heap := (heap w)(i \<mapsto> [])\<rparr> = w" using block [OF a i(1)] i(2) True by (simp add: fun_upd_idem)
  ultimately show ?thesis using True n i sock
    by (simp add: get_buf_heap_def block [OF a i(1)] get_buf_from_sock_def store_def)
next
  case False
  show ?thesis
    unfolding get_buf_heap_def ptr.case block [OF a i(1)] option.case runs_obind
    apply (rule recv_n [OF a n False])
      apply (simp_all add: i(2) sock runs_obind)
    apply (rule snd.mem.overwrite [where x = "[]" and y = c and z = "[]" and m = m and b = c])
    using i by (auto simp: fun_upd_idem intro: Q)
qed

end

interpretation online_reader: reader "\<lambda>bs out m w. online sock w0 m bs out w" sock "older w0" for sock w0
proof (rule reader.intro)
  show "lender (\<lambda>out m w. online sock w0 m bs out w) False sock (older w0)" for bs
    by (rule healthy_lender.lender_axioms)
next
  fix xs bs out m w cap blk and Q :: "int \<times> byte list \<times> int option \<Rightarrow> world \<Rightarrow> bool"
  assume "online sock w0 m (xs @ bs) out w" "xs \<noteq> []" "length xs \<le> cap" "0 \<le> sock"
    "\<And>w'. online sock w0 m bs out w' \<Longrightarrow> Q (0, xs, Some (int (length xs))) w'"
  then show "runs blk (get_buf_from_sock sock (Some cap) (int (length xs)) w) Q"
    by (intro runs_get_buf_online) auto
qed (auto intro: since_block online_since)

end
