(* ===== verification/Exec_Str.thy ===== *)
theory Exec_Str
  imports Rpc
begin

text \<open>
  \<open>exec_str\<close> of src/aux_rcli.c: one evaluation round trip with the server. The function sends a
  request, reads the response header and, if the caller wants output, the payload behind it.
  Its contract is the interface \<open>evaluator\<close>, against which the query functions are verified;
  it is provided in any environment (\<open>any_eval\<close>) and, by \<open>sublocale\<close>, wherever an expected stream is read (\<open>reader\<close>).
\<close>

section \<open>The function\<close>

text \<open>Besides \<open>param1\<close>, the locals its BYE section and its caller see: \<open>ev_output\<close> is what has been stored through
  \<open>ptr_output\<close> and \<open>ptr_len_out\<close>, if anything.\<close>

record exec_vars = param_vars +
  ev_out_buf :: ptr
  ev_output :: "(ptr \<times> size_t) option"

text \<open>Lines 181 to 201: build the request, send it in two pieces, read the response header.\<close>

definition exec_request :: "int \<Rightarrow> cstr \<Rightarrow> bool \<Rightarrow> (int \<times> phdr, 'r, exec_vars, world) cmd" where
  "exec_request sock str want_output =
     chain (prepare_param (Some str)) (\<lambda>len_param1.
     let r_cmd = (if want_output then lit ''CMD_eval'' else lit ''CMD_voidEval'') in
     chain (send_request sock r_cmd len_param1) (\<lambda>ph.
     chain (call (read_hdr sock ph)) (\<lambda>(status, ph).
     chain (cBYE status) (\<lambda>_.
     done_with (status, ph)))))"

text \<open>Lines 206 to 232: the payload, whose first eight bytes are the \<open>DT_SEXP\<close> and \<open>XT\<close> words.\<close>

definition exec_payload :: "int \<Rightarrow> phdr \<Rightarrow> int \<Rightarrow> (int, 'r, exec_vars, world) cmd" where
  "exec_payload sock ph expected_xt =
     (let payload_len = size_of_int (sint (len ph)) in
     chain (upd_loc (\<lambda>l. l\<lparr>ev_output := Some (Null, 0)\<rparr>)) (\<lambda>_.
     chain (bye_when (payload_len = 0) (-1)) (\<lambda>_.
     let sz_out_buf = payload_len - 8 in
     chain (call (sys_malloc sz_out_buf)) (\<lambda>out_buf.
     chain (upd_loc (\<lambda>l. l\<lparr>ev_out_buf := out_buf\<rparr>)) (\<lambda>_.
     chain (bye_when (out_buf = Null) (-1)) (\<lambda>_.
     chain (call (store out_buf 0 (replicate (unat sz_out_buf) 0))) (\<lambda>_.
     chain (call (get_buf_from_sock sock (Some HDR_LEN) 8)) (\<lambda>(status, hdr, num_read).
     chain (cBYE status) (\<lambda>_.
     chain (bye_when (u32_at hdr 0 AND 0xFF \<noteq> DT_SEXP) (-1)) (\<lambda>_.
     chain (bye_when (0 \<le> expected_xt \<and> int (unat (u32_at hdr 1 AND 0xFF)) \<noteq> expected_xt) (-1)) (\<lambda>_.
     chain (call (get_buf_heap sock out_buf (to_int sz_out_buf))) (\<lambda>(status, num_read).
     chain (cBYE status) (\<lambda>_.
     chain (upd_loc (\<lambda>l. l\<lparr>ev_output := Some (out_buf, sz_out_buf)\<rparr>)) (\<lambda>_.
     done_with status))))))))))))))"

text \<open>
  The whole function. \<open>want_output\<close> is \<open>ptr_output != NULL\<close>; the result is the status and what
  was stored through the two out-pointers. The diagnostics on standard output are left out.
\<close>

definition exec_str ::
    "int \<Rightarrow> cstr option \<Rightarrow> bool \<Rightarrow> int \<Rightarrow> world \<Rightarrow> (int \<times> (ptr \<times> size_t) option, world) outcome" where
  "exec_str sock str want_output expected_xt =
     proc \<lparr>ev_param1 = Null, ev_out_buf = Null, ev_output = None\<rparr>
       (chain (bye_when (sock < 0) (-1)) (\<lambda>_.
        case str of
          None \<Rightarrow> go_BYE (-1)
        | Some s \<Rightarrow>
            chain (exec_request sock s want_output) (\<lambda>(status, ph).
            if want_output then exec_payload sock ph expected_xt else done_with status)))
       (\<lambda>status l w.
          obind (if status < 0 then free_all [ev_out_buf l] w else Done () w) (\<lambda>_ w1.
          obind (free_all [ev_param1 l] w1) (\<lambda>_ w2. Done (status, ev_output l) w2)))"

text \<open>The two halves of the body, in any environment and in a healthy one.\<close>

lemma eval_command [simp]:
  "command_code (if wo then lit ''CMD_eval'' else lit ''CMD_voidEval'') = Some (if wo then CMD_eval else CMD_voidEval)"
  by simp

lemma exec_request_any:
  assumes s: "since sock w0 m w" and b: "\<not> blk \<longrightarrow> closes sock w0" and p: "ev_param1 l = Null"
    and fits: "cstr_fits s"
    and B: "\<And>st w'. since sock w0 m w' \<Longrightarrow> st < 0 \<Longrightarrow> B st l w'"
    and B': "\<And>st i b w'. since sock w0 (m(i \<mapsto> b)) w' \<Longrightarrow> m i = None \<Longrightarrow> st < 0 \<Longrightarrow> B st (l\<lparr>ev_param1 := Ptr i\<rparr>) w'"
    and Q: "\<And>ph w'. since sock w0 m w' \<Longrightarrow> Q (0, ph) l w'"
  shows "wp blk (exec_request sock s wo) Q B R l w"
proof -
  have l: "l\<lparr>ev_param1 := Null\<rparr> = l" using p by (cases l) simp
  show ?thesis
    unfolding exec_request_def wp_simps Let_def
  proof (rule any_channel.prepare_param_rule [OF s p], goal_cases)
    case (4 s' i w')
    then show ?case
      by (intro any_channel.send_request_rule [where b = "dt_string_param s" and m = m and i = i])
        (use fits b in \<open>auto simp: wp_simps l dt_string_param_small [simplified] intro!: B B' Q runs_read_hdr\<close>)
  qed (use fits in \<open>auto intro: B\<close>)
qed

lemma exec_payload_any:
  assumes s: "since sock w0 m w" and b: "\<not> blk \<longrightarrow> closes sock w0" and p: "ev_out_buf l = Null"
    and B: "\<And>st w'. since sock w0 m w' \<Longrightarrow> st < 0 \<Longrightarrow> B st (l\<lparr>ev_output := Some (Null, 0)\<rparr>) w'"
    and B': "\<And>st i b w' l'. since sock w0 (m(i \<mapsto> b)) w' \<Longrightarrow> m i = None \<Longrightarrow> st < 0 \<Longrightarrow>
       l' = l\<lparr>ev_output := Some (Null, 0), ev_out_buf := Ptr i\<rparr> \<Longrightarrow> B st l' w'"
    and Q: "\<And>i d w' l'. since sock w0 (m(i \<mapsto> d)) w' \<Longrightarrow> m i = None \<Longrightarrow> length d \<le> ptrdiff_max \<Longrightarrow>
       l' = l\<lparr>ev_output := Some (Ptr i, of_nat (length d)), ev_out_buf := Ptr i\<rparr> \<Longrightarrow> Q 0 l' w'"
  shows "wp blk (exec_payload sock ph xt) Q B R l w"
proof -
  define sz where "sz = size_of_int (sint (len ph)) - 8"
  have l: "l\<lparr>ev_output := x, ev_out_buf := Null\<rparr> = l\<lparr>ev_output := x\<rparr>" for x using p by (cases l) simp
  have Q': "Q 0 l' w'"
    if "since sock w0 (m(i \<mapsto> d)) w'" "m i = None" "unat sz \<le> ptrdiff_max" "length d = unat sz"
      "l' = l\<lparr>ev_output := Some (Ptr i, sz), ev_out_buf := Ptr i\<rparr>" for i d w' l'
    using Q [of i d w' l'] that by simp
  show ?thesis
    unfolding exec_payload_def wp_simps Let_def sz_def [symmetric]
    apply (simp add: B [OF s])
    apply (rule impI, rule runs_sys_malloc [OF s])
     apply (simp add: l B wp_simps)
    apply (simp add: wp_simps)
    apply (rule runs_store, assumption, simp, simp)
    apply (rule runs_get_buf, assumption, rule b, simp add: HDR_LEN_def)
    apply (simp add: wp_simps)
    apply (intro conjI impI; (erule (1) B', simp, simp; fail)?)
    apply (rule runs_get_buf_heap, assumption, rule b, simp, simp add: to_int_le)
    apply (simp add: wp_simps)
    apply (intro conjI impI)
     apply (erule (1) B', simp, simp)
    apply (elim disjE conjE; simp?)
    apply (erule (1) Q', simp, auto)
    done
qed

text \<open>In a healthy environment.\<close>

context reader
begin

lemma exec_request_rule:
  assumes o: "A (enc_phdr ph @ bs) out m w" and p: "ev_param1 l = Null"
    and sock: "0 \<le> sock" and fits: "fits_packet (length s)"
    and Q: "\<And>w'. A bs (out @ eval_request wo s) m w' \<Longrightarrow> Q (0, ph) l w'"
  shows "wp blk (exec_request sock s wo) Q B R l w"
  unfolding exec_request_def wp_simps Let_def
  by (rule snd.request_rule [OF o p, where code = "if wo then CMD_eval else CMD_voidEval"])
    (use fits sock in \<open>auto simp: wp_simps fits_packet_cstr eval_request_def intro!: Q read_hdr_rule\<close>)

lemma exec_payload_rule:
  assumes o: "A (le32 dtw @ le32 xtw @ d @ bs) out m w"
    and ph: "len ph = of_nat (length d + 8)" and fits: "fits_packet (length d)" and sock: "0 \<le> sock"
    and dt: "dtw AND 0xFF = DT_SEXP" and xt: "xt < 0 \<or> int (unat (xtw AND 0xFF)) = xt"
    and Q: "\<And>i w' l'. A bs out (m(i \<mapsto> d)) w' \<Longrightarrow> m i = None \<Longrightarrow>
       l' = l\<lparr>ev_output := Some (Ptr i, of_nat (length d)), ev_out_buf := Ptr i\<rparr> \<Longrightarrow> Q 0 l' w'"
  shows "wp blk (exec_payload sock ph xt) Q B R l w"
proof -
  have d: "length d + 24 < 2 ^ 31" using fits by (simp add: fits_packet_def)
  then have "sint (len ph) = int (length d + 8)" unfolding ph by (intro sint_of_nat_u32) simp
  then have pl: "size_of_int (sint (len ph)) = of_nat (length d + 8)" by (simp only: size_of_int_of_nat)
  then have sz: "size_of_int (sint (len ph)) - 8 = of_nat (length d)" by simp
  have u: "unat (of_nat (length d) :: size_t) = length d" using d by (intro unat_of_nat_size) simp
  have i: "to_int (of_nat (length d) :: size_t) = int (length d)" using d by (intro to_int_of_nat) simp_all
  have nz: "size_of_int (sint (len ph)) \<noteq> 0"
    unfolding pl using of_nat_eq_size [of "length d + 8" 0] d by simp
  have pm: "length d \<le> ptrdiff_max" using d by (simp add: ptrdiff_max_def)
  show ?thesis
    unfolding exec_payload_def wp_simps Let_def sz
    apply (simp add: nz)
    apply (rule snd.mem.malloc [OF o])
      apply (simp add: u pm)
     apply simp
    apply (simp add: wp_simps)
    apply (rule snd.mem.store, assumption, simp, simp add: u)
    apply (rule recv_n [where xs = "le32 dtw @ le32 xtw"], simp, simp, simp, simp add: HDR_LEN_def, rule sock)
    apply (simp add: wp_simps layout_simps dt)
    apply (intro conjI impI)
     apply (use xt in simp)
    apply (rule recv_block, assumption, simp, simp add: u, rule sock, simp add: i)
    apply (simp add: wp_simps)
    apply (erule (1) Q, simp)
    done
qed

lemma exec_str_rule:
  assumes o: "A (sexp_reply xt' d @ bs) out m w" and sock: "0 \<le> sock"
    and fits: "fits_packet (length s)" "fits_packet (length d)" and xt: "unat xt' < 256"
    and want: "xt < 0 \<or> xt = int (unat xt')"
    and P: "\<And>i w'. A bs (out @ eval_request True s) (m(i \<mapsto> d)) w' \<Longrightarrow> m i = None \<Longrightarrow>
       Q (0, Some (Ptr i, of_nat (length d))) w'"
  shows "runs blk (exec_str sock (Some s) True xt w) Q"
proof -
  have ns: "\<not> sock < 0" using sock by simp
  let ?ph = "\<lparr>cmd = RESP_OK, len = of_nat (length d + 8), msg_id = 0, res = 0\<rparr>"
  let ?dtw = "SET_PAR DT_SEXP (of_nat (length d + 4))" and ?xtw = "SET_PAR xt' (of_nat (length d))"
  have reply: "sexp_reply xt' d @ bs = enc_phdr ?ph @ le32 ?dtw @ le32 ?xtw @ d @ bs"
    by (simp add: sexp_reply_def response_def dt_sexp_param_def sexp_def add.commute)
  have dt: "SET_PAR DT_SEXP x AND 0xFF = DT_SEXP" for x
    using PAR_TYPE_SET_PAR [of DT_SEXP x]
    by (simp add: PAR_TYPE_def DT_SEXP_def)
  have "xt' AND 255 = xt'"
    using xt unfolding and_255 word_unat_eq_iff by (simp add: unsigned_take_bit_eq take_bit_nat_eq_self)
  then have xtw: "SET_PAR xt' x AND 0xFF = xt'" for x
    using PAR_TYPE_SET_PAR [of xt' x] by (simp add: PAR_TYPE_def)
  show ?thesis
    unfolding exec_str_def wp_simps option.case
    apply (simp add: ns wp_simps)
    apply (rule exec_request_rule [OF o [unfolded reply] _ sock fits(1)], simp)
    apply (simp add: wp_simps)
    apply (rule exec_payload_rule, assumption, simp, rule fits(2), rule sock, rule dt)
    using want xtw apply auto[1]
    apply (simp add: wp_simps)
    apply (erule (1) P)
    done
qed

end

section \<open>The contract of exec_str\<close>

text \<open>In any environment: no undefined behaviour and no leak, and a status of 0 comes with a fresh
  block if output was asked for. Only a connection whose peer does not close can make it block.\<close>

lemma runs_exec_str [vcg]:
  assumes s: "since sock w0 m w" and b: "\<not> blk \<longrightarrow> closes sock w0"
    and fits: "\<And>t. str = Some t \<Longrightarrow> cstr_fits t"
    and F: "\<And>st out w'. since sock w0 m w' \<Longrightarrow> st < 0 \<Longrightarrow> out = None \<or> out = Some (Null, 0) \<Longrightarrow> Q (st, out) w'"
    and V: "\<And>w'. since sock w0 m w' \<Longrightarrow> \<not> wo \<Longrightarrow> Q (0, None) w'"
    and P: "\<And>i d w'. wo \<Longrightarrow> since sock w0 (m(i \<mapsto> d)) w' \<Longrightarrow> m i = None \<Longrightarrow> length d \<le> ptrdiff_max \<Longrightarrow>
       Q (0, Some (Ptr i, of_nat (length d))) w'"
  shows "runs blk (exec_str sock str wo xt w) Q"
  unfolding exec_str_def wp_simps
proof (cases str, goal_cases)
  case 1
  then show ?case by (simp add: wp_simps F [OF s])
next
  case (2 t)
  show ?case
    unfolding 2 option.case wp_simps
    apply (simp add: wp_simps F [OF s])
    apply (rule impI, rule exec_request_any [OF s b])
        apply (simp_all add: fits [OF 2] wp_simps F)
     apply (rule runs_free_Ptr, assumption, simp, simp add: F)
    apply (intro conjI impI)
     apply (rule exec_payload_any, assumption, rule b, simp, simp_all add: wp_simps F V)
     apply (rule runs_free_Ptr, assumption, simp, simp add: F)
    apply (rule P, simp_all)
    done
qed

lemmas runs_exec_str_online [vcg_online] = online_reader.exec_str_rule

section \<open>Evaluation as an interface\<close>

text \<open>
  What the query functions rely on, for assertions \<open>A\<close> before and \<open>A'\<close> after the round trip about
  the blocks owned: a question that \<open>asks\<close> admits is answered with a fresh block whose contents
  \<open>answer\<close> describes, or, where the environment is \<open>faulty\<close>, with a negative status and no block.
\<close>

type_synonym evaluation =
  "cstr \<Rightarrow> int \<Rightarrow> world \<Rightarrow> (int \<times> (ptr \<times> size_t) option, world) outcome"

locale evaluator =
  pre: allocator A faulty + post: allocator A' faulty
  for A :: "blocks \<Rightarrow> world \<Rightarrow> bool" and A' :: "blocks \<Rightarrow> world \<Rightarrow> bool" and faulty :: bool +
  fixes ev :: evaluation
    and asks :: "cstr \<Rightarrow> int \<Rightarrow> bool"
    and answer :: "byte list \<Rightarrow> bool"
    and blk :: bool
  assumes eval: "A m w \<Longrightarrow> asks s xt \<Longrightarrow>
      (\<And>st out w'. faulty \<Longrightarrow> A' m w' \<Longrightarrow> st < 0 \<Longrightarrow> out = None \<or> out = Some (Null, 0) \<Longrightarrow> Q (st, out) w') \<Longrightarrow>
      (\<And>i d w'. A' (m(i \<mapsto> d)) w' \<Longrightarrow> m i = None \<Longrightarrow> answer d \<Longrightarrow> length d \<le> ptrdiff_max \<Longrightarrow>
        Q (0, Some (Ptr i, of_nat (length d))) w') \<Longrightarrow>
      runs blk (ev s xt w) Q"

definition eval_on :: "int \<Rightarrow> evaluation" where
  "eval_on sock s xt = exec_str sock (Some s) True xt"

interpretation any_eval: evaluator "since sock w0" "since sock w0" True "eval_on sock"
  "\<lambda>s xt. cstr_fits s" "\<lambda>d. True" "\<not> closes sock w0" for sock w0
  by unfold_locales (auto simp: eval_on_def intro!: runs_exec_str)

definition answerable :: "int \<Rightarrow> u32 \<Rightarrow> cstr \<Rightarrow> byte list \<Rightarrow> bool" where
  "answerable sock xt s d \<longleftrightarrow>
     0 \<le> sock \<and> unat xt < 256 \<and> fits_packet (length s) \<and> fits_packet (length d)"

sublocale reader \<subseteq> ans: evaluator "A (sexp_reply xt0 d0 @ bs) out" "A bs (out @ eval_request True s0)" False "eval_on sock"
  "\<lambda>s xt. s = s0 \<and> answerable sock xt0 s0 d0 \<and> (xt < 0 \<or> xt = int (unat xt0))" "\<lambda>d. d = d0" False
  for xt0 d0 bs out s0
proof unfold_locales
  fix m w s xt and Q :: "int \<times> (ptr \<times> size_t) option \<Rightarrow> world \<Rightarrow> bool"
  assume o: "A (sexp_reply xt0 d0 @ bs) out m w"
    and a: "s = s0 \<and> answerable sock xt0 s0 d0 \<and> (xt < 0 \<or> xt = int (unat xt0))"
    and Q: "\<And>i d w'. A bs (out @ eval_request True s0) (m(i \<mapsto> d)) w' \<Longrightarrow>
      m i = None \<Longrightarrow> d = d0 \<Longrightarrow> length d \<le> ptrdiff_max \<Longrightarrow> Q (0, Some (Ptr i, of_nat (length d))) w'"
  have "length d0 \<le> ptrdiff_max"
    using a by (simp add: answerable_def fits_packet_def ptrdiff_max_def)
  then show "runs False (eval_on sock s xt w) Q"
    unfolding eval_on_def using a
    by (intro exec_str_rule [OF o, of s]) (auto simp: answerable_def intro: Q)
qed

section \<open>Properties\<close>


text \<open>C1. \<open>exec_str\<close> is safe in every environment and against every server: no undefined behaviour, no leak, it
  blocks only if the peer never closes, fails with nothing allocated, and on success with output hands
  the caller one fresh block of exactly the size it reports.\<close>

theorem exec_str_safe:
  assumes "wf_heap w" and "\<And>s. str = Some s \<Longrightarrow> cstr_fits s"
  shows "runs (\<not> closes sock w) (exec_str sock str want_output xt w) (\<lambda>(st, out) w'.
    st < 0 \<and> (out = None \<or> out = Some (Null, 0)) \<and> heap w' = heap w \<or>
    st = 0 \<and> \<not> want_output \<and> out = None \<and> heap w' = heap w \<or>
    st = 0 \<and> want_output \<and> (\<exists>i d. out = Some (Ptr i, of_nat (length d)) \<and> length d \<le> ptrdiff_max \<and>
       heap w i = None \<and> heap w' = (heap w)(i \<mapsto> d)))"
  by (rule runs_exec_str [OF since_start [OF assms(1)]])
    (use assms(2) in \<open>auto dest: since_heap [OF assms(1)] since_one_self [OF assms(1)]\<close>)

theorem exec_str_safe_witness:
  "\<exists>st out w'. exec_str 3 (Some (lit ''x'')) True 33 (peer_world [[1, 2], [3]]) = Done (st, out) w' \<and> st \<le> 0"
  using exec_str_safe [of "peer_world [[1, 2], [3]]" "Some (lit ''x'')" 3 True 33]
  by (auto simp: cstr_fits_def dest!: runs_total)

text \<open>C2. Round trip: against a server that answers with an expression of the expected type, \<open>exec_str\<close> sends
  exactly the request packet, consumes exactly the response and delivers exactly its content.\<close>

theorem exec_str_answers:
  assumes "serves sock (sexp_reply xt d) rest w" and "unat xt < 256"
    and "fits_packet (length s)" and "fits_packet (length d)" and "expected < 0 \<or> expected = int (unat xt)"
  shows "\<exists>i w'. exec_str sock (Some s) True expected w = Done (0, Some (Ptr i, of_nat (length d))) w' \<and>
    heap w i = None \<and> heap w' = (heap w)(i \<mapsto> d) \<and>
    pending sock w' = Some rest \<and> sent sock w' = sent sock w @ eval_request True s"
proof -
  have wf: "wf_heap w" "0 \<le> sock" using assms(1) by (simp_all add: serves_def)
  have "runs False (exec_str sock (Some s) True expected w) (\<lambda>r w'. \<exists>i. r = (0, Some (Ptr i, of_nat (length d))) \<and>
    heap w i = None \<and> heap w' = (heap w)(i \<mapsto> d) \<and>
    pending sock w' = Some rest \<and> sent sock w' = sent sock w @ eval_request True s)"
    by (rule runs_exec_str_online [OF servesD [OF assms(1)] wf(2) assms(3,4,2,5)])
      (auto simp: online_def dest: since_one_self [OF wf(1)])
  then show ?thesis by (auto dest!: runs_total)
qed

theorem exec_str_answers_witness:
  "\<exists>i w'. exec_str 3 (Some (lit ''n'')) True 32 (peer_world [sexp_reply XT_ARRAY_INT (int_array [5])]) =
      Done (0, Some (Ptr i, 4)) w' \<and> heap w' i = Some [5, 0, 0, 0]"
  using exec_str_answers [of 3 XT_ARRAY_INT "int_array [5]" "[]" "peer_world [sexp_reply XT_ARRAY_INT (int_array [5])]" "lit ''n''" 32]
  by (force simp: serves_def fits_packet_def XT_ARRAY_INT_def int_array_def le32_bytes)

text \<open>C30. A void evaluation returns 0 whatever the response header says, error responses included, and leaves
  the payload of the response in the stream.\<close>

theorem exec_str_void_ignores_response:
  assumes "serves sock (response c payload) rest w" and "fits_packet (length s)"
  shows "\<exists>w'. exec_str sock (Some s) False xt w = Done (0, None) w' \<and>
    served sock (eval_request False s) (payload @ rest) w w'"
proof (rule runs_Done_ex)
  have wf: "wf_heap w" "\<not> sock < 0" "0 \<le> sock" using assms(1) by (simp_all add: serves_def)
  show "runs False (exec_str sock (Some s) False xt w) (\<lambda>r w'. r = (0, None) \<and>
    served sock (eval_request False s) (payload @ rest) w w')"
    unfolding exec_str_def wp_simps option.case
    apply (simp add: wf wp_simps)
    apply (rule online_reader.exec_request_rule [OF servesD [OF assms(1), unfolded response_def append_assoc] _ wf(3) assms(2)], simp)
    apply (simp add: wp_simps servedI [OF wf(1)])
    done
qed

theorem exec_str_void_ignores_response_witness:
  "\<exists>w'. exec_str 3 (Some (lit ''stop()'')) False 0 (peer_world [response RESP_ERR []]) = Done (0, None) w'"
  using exec_str_void_ignores_response [of 3 RESP_ERR "[]" "[]" "peer_world [response RESP_ERR []]" "lit ''stop()''" 0]
  by (auto simp: serves_def fits_packet_def)

end
