(* ===== verification/Segment.thy ===== *)
theory Segment
  imports Exec_Str
begin

text \<open>
  A healthy environment in which the response comes in one segment, for the functions that read
  pieces of it with one bare \<open>read\<close> each (src/get_F8.c, src/get_I4.c, src/get_vec.c). It is a third
  instance of the interface \<open>channel\<close>, and \<open>segment_reader\<close> a second one of \<open>reader\<close>, so that what holds of
  \<open>exec_str\<close> and \<open>set_vec\<close> on a byte stream holds here too.
\<close>

section \<open>The bare read\<close>

text \<open>\<open>int nr = read(sock, hdr, 8)\<close> and its checks, as the three functions have them.\<close>

definition read_words :: "int \<Rightarrow> (byte list, 'r, 'l, world) cmd" where
  "read_words sock =
     chain (call (sys_read sock 8)) (\<lambda>(nr, hdr).
     chain (bye_when (nr = 0) (-2)) (\<lambda>_.
     chain (bye_when (nr < 0) (-3)) (\<lambda>_.
     chain (bye_when (nr \<noteq> 8) (-1)) (\<lambda>_.
     done_with hdr))))"

section \<open>A response in one segment\<close>

text \<open>
  \<open>whole sock w0 m bs q out w\<close>: like \<open>online\<close>, with the bytes \<open>bs\<close> in one segment and the events \<open>q\<close>
  behind it, and a connection that closes only if it did at \<open>w0\<close>.
\<close>

definition whole :: "int \<Rightarrow> world \<Rightarrow> blocks \<Rightarrow> byte list \<Rightarrow> rcv_event list \<Rightarrow> byte list \<Rightarrow> world \<Rightarrow> bool" where
  "whole sock w0 m bs q out w \<longleftrightarrow> since sock w0 m w \<and> mallocs w = [] \<and> (closes sock w \<longrightarrow> closes sock w0) \<and>
     (\<exists>c. socks w sock = Some (Connected c) \<and> sndq c = [] \<and> outb c = out \<and>
        inq c = (if bs = [] then q else Data bs # q))"

lemma wholeI:
  "since sock w0 m w \<Longrightarrow> mallocs w = [] \<Longrightarrow> socks w sock = Some (Connected c) \<Longrightarrow> sndq c = [] \<Longrightarrow>
   outb c = out \<Longrightarrow> inq c = (if bs = [] then q else Data bs # q) \<Longrightarrow>
   (closes sock w \<Longrightarrow> closes sock w0) \<Longrightarrow> whole sock w0 m bs q out w"
  by (auto simp: whole_def)

lemma wholeE:
  assumes "whole sock w0 m bs q out w"
  obtains c where "socks w sock = Some (Connected c)" "sndq c = []" "outb c = out"
    "inq c = (if bs = [] then q else Data bs # q)" "since sock w0 m w" "mallocs w = []" "closes sock w \<longrightarrow> closes sock w0"
  using assms by (auto simp: whole_def)

lemma whole_since: "whole sock w0 m bs q out w \<Longrightarrow> since sock w0 m w"
  by (simp add: whole_def)

lemma whole_online: "whole sock w0 m bs q out w \<Longrightarrow> online sock w0 m (bs @ avail q) out w"
  by (auto simp: whole_def intro!: online_conn)

text \<open>Every step that keeps the incoming queue keeps \<open>whole\<close>: the rules of the healthy environment carry
  over.\<close>

lemma whole_heap_upd:
  "whole sock w0 m bs q out w \<Longrightarrow> m i \<noteq> None \<Longrightarrow>
   whole sock w0 (m(i := x)) bs q out (w\<lparr>heap := (heap w)(i := x)\<rparr>)"
  by (auto simp: whole_def since_heap_upd closes_def)

lemma runs_sys_malloc_whole_exact:
  assumes h: "whole sock w0 m bs q out w" and n: "unat n \<le> ptrdiff_max"
    and P: "\<And>w' i. whole sock w0 (m(i \<mapsto> map (junk w (next_id w)) [0..<unat n])) bs q out w' \<Longrightarrow> m i = None \<Longrightarrow> Q (Ptr i) w'"
  shows "runs blk (sys_malloc n w) Q"
proof -
  from h obtain c where c: "socks w sock = Some (Connected c)" "sndq c = []" "outb c = out"
    "inq c = (if bs = [] then q else Data bs # q)" "since sock w0 m w" "mallocs w = []"
    "closes sock w \<longrightarrow> closes sock w0" by (rule wholeE)
  let ?b = "map (junk w (next_id w)) [0..<unat n]"
  have "whole sock w0 (m(next_id w \<mapsto> ?b)) bs q out
    (w\<lparr>mallocs := [], next_id := Suc (next_id w), heap := (heap w)(next_id w \<mapsto> ?b)\<rparr>)"
    by (rule wholeI [where c = c]) (use c since_alloc [OF c(5)] in \<open>auto simp: closes_def\<close>)
  with c n P since_fresh [OF c(5)] show ?thesis by (simp add: sys_malloc_def)
qed

lemma runs_sys_malloc_whole:
  assumes "whole sock w0 m bs q out w" "unat n \<le> ptrdiff_max"
    and "\<And>w' i b. whole sock w0 (m(i \<mapsto> b)) bs q out w' \<Longrightarrow> m i = None \<Longrightarrow> length b = unat n \<Longrightarrow> Q (Ptr i) w'"
  shows "runs blk (sys_malloc n w) Q"
  by (rule runs_sys_malloc_whole_exact [OF assms(1,2)]) (rule assms(3), assumption+, simp)

lemma runs_sys_send_whole:
  assumes h: "whole sock w0 m bs q out w"
    and Q: "\<And>w'. whole sock w0 m bs q (out @ xs) w' \<Longrightarrow> Q (int (length xs)) w'"
  shows "runs blk (sys_send sock xs w) Q"
proof -
  from h obtain c where c: "socks w sock = Some (Connected c)" "sndq c = []" "outb c = out"
    "inq c = (if bs = [] then q else Data bs # q)" "since sock w0 m w" "mallocs w = []"
    "closes sock w \<longrightarrow> closes sock w0" by (rule wholeE)
  have "whole sock w0 m bs q (out @ xs) (put_conn sock (c\<lparr>outb := outb c @ xs\<rparr>) w)"
    by (rule wholeI [where c = "c\<lparr>outb := outb c @ xs\<rparr>"])
      (use c in \<open>auto intro!: since_net simp: closes_conn\<close>)
  with c Q show ?thesis by (simp add: sys_send_def)
qed

lemma allocator_whole: "allocator (\<lambda>m w. whole sock w0 m bs q out w) False"
proof (unfold_locales, goal_cases)
  case 1
  then show ?case by (auto intro: runs_sys_malloc_whole)
next
  case (2 m w i blk R)
  then show ?case using whole_heap_upd [OF 2(1), of i None] since_block [OF whole_since [OF 2(1)]]
    by (auto simp: sys_free_def)
next
  case (3 m w i b off bs' blk R)
  then show ?case using whole_heap_upd [OF 3(1), of i] since_block [OF whole_since [OF 3(1)] 3(2)]
    by (simp add: store_def)
qed (auto intro: runs_load_str runs_load dest: whole_since)

interpretation whole_channel: channel "\<lambda>out m w. whole sock w0 m bs q out w" False sock for sock w0 bs q
  by (rule channel.intro) (auto intro: allocator_whole runs_sys_send_whole)

text \<open>A bare read takes what fits of the segment; \<open>get_buf_from_sock\<close> takes what it wants.\<close>

lemma runs_sys_read_whole:
  assumes h: "whole sock w0 m bs q out w" and n: "0 < n" "bs \<noteq> []"
    and Q: "\<And>w'. whole sock w0 m (drop n bs) q out w' \<Longrightarrow> Q (int (min n (length bs)), take n bs) w'"
  shows "runs blk (sys_read sock n w) Q"
proof -
  from h obtain c where c: "socks w sock = Some (Connected c)" "sndq c = []" "outb c = out"
    "inq c = Data bs # q" "since sock w0 m w" "mallocs w = []" "closes sock w \<longrightarrow> closes sock w0" using n by (auto elim: wholeE)
  let ?q = "if length bs \<le> n then q else Data (drop n bs) # q"
  have r: "read_event n (inq c) = Some (Got (take n bs), ?q)" using c(4) n by simp
  have "whole sock w0 m (drop n bs) q out (put_conn sock (c\<lparr>inq := ?q\<rparr>) w)"
    by (rule wholeI [where c = "c\<lparr>inq := ?q\<rparr>"]) (use c in \<open>auto intro!: since_net simp: closes_conn split: if_splits\<close>)
  with c r n Q show ?thesis by (simp add: sys_read_def min.commute)
qed

lemma runs_get_buf_whole:
  assumes h: "whole sock w0 m (xs @ bs) q out w" and xs: "xs \<noteq> []" "length xs \<le> cap" and sock: "0 \<le> sock"
    and Q: "\<And>w'. whole sock w0 m bs q out w' \<Longrightarrow> Q (0, xs, Some (int (length xs))) w'"
  shows "runs blk (get_buf_from_sock sock (Some cap) (int (length xs)) w) Q"
proof -
  from h xs obtain c where c: "socks w sock = Some (Connected c)" "sndq c = []" "outb c = out"
    "inq c = Data (xs @ bs) # q" "since sock w0 m w" "mallocs w = []" "closes sock w \<longrightarrow> closes sock w0" by (auto elim: wholeE)
  let ?q = "if bs = [] then q else Data bs # q"
  have d: "drain (length xs) (inq c) = ?q" using c(4) xs(1) by (simp add: drain_Data)
  have "whole sock w0 m bs q out (put_conn sock (c\<lparr>inq := ?q\<rparr>) w)"
    by (rule wholeI [where c = "c\<lparr>inq := ?q\<rparr>"]) (use c in \<open>auto intro!: since_net simp: closes_conn split: if_splits\<close>)
  moreover have "get_buf_from_sock sock (Some cap) (int (length xs)) w =
    Done (0, xs, Some (int (length xs))) (put_conn sock (c\<lparr>inq := ?q\<rparr>) w)"
    using get_buf_loop_exact [OF c(1), of "length xs" "[]" cap] c(4) d sock xs by (simp add: get_buf_from_sock_def)
  ultimately show ?thesis using Q by simp
qed

interpretation segment_reader: reader "\<lambda>bs out m w. whole sock w0 m bs q out w" sock "older w0" for sock w0 q
proof (rule reader.intro)
  show "lender (\<lambda>out m w. whole sock w0 m bs q out w) False sock (older w0)" for bs
    by (intro lender.intro whole_channel.channel_axioms lender_axioms.intro) (rule since_older, erule whole_since)
qed (auto intro: since_block whole_since runs_get_buf_whole)

lemmas runs_read_hdr_whole = segment_reader.read_hdr_rule

text \<open>\<open>arrives sock seg q w\<close>: everything allocated and sent succeeds, the next bytes come as the segment
  \<open>seg\<close>, then the events \<open>q\<close>.\<close>

definition arrives :: "int \<Rightarrow> byte list \<Rightarrow> rcv_event list \<Rightarrow> world \<Rightarrow> bool" where
  "arrives sock seg q w \<longleftrightarrow> 0 \<le> sock \<and> wf_heap w \<and> whole sock w Map.empty seg q (sent sock w) w"

lemma arrives_peer [simp]: "seg \<noteq> [] \<Longrightarrow> arrives 3 seg [Eof] (peer_world [seg])"
  by (auto simp: arrives_def since_start peer_world_def peer_conn_def sent_def wf_heap_def intro!: wholeI)

lemma arrives_ending: "seg \<noteq> [] \<Longrightarrow> arrives 3 seg q (put_conn 3 (peer_conn [seg] q) (peer_world []))"
  by (auto simp: arrives_def since_start peer_world_def peer_conn_def sent_def wf_heap_def intro!: wholeI)

lemma served_whole:
  "wf_heap w \<Longrightarrow> whole sock w Map.empty bs q (sent sock w @ req) w' \<Longrightarrow> served sock req (bs @ avail q) w w'"
  by (rule servedI) (auto intro: whole_online)

text \<open>The common start of these functions, as an equation.\<close>

lemma request_exec:
  assumes h: "whole sock w0 m (enc_phdr ph @ bs) q out w" and sock: "0 \<le> sock" and p: "ev_param1 l = Null"
    and fits: "fits_packet (length s)"
  obtains w' where "whole sock w0 m bs q (out @ eval_request True s) w'"
    "\<And>k :: int \<times> phdr \<Rightarrow> ('a, 'r, 'l param_vars_scheme, world) cmd. chain (prepare_param (Some s)) (\<lambda>n. chain (send_request sock (lit ''CMD_eval'') n) (\<lambda>ph0.
       chain (call (read_hdr sock ph0)) k)) (l, w) = k (0, ph) (l, w')"
proof -
  let ?pre = "chain (prepare_param (Some s)) (send_request sock (lit ''CMD_eval'')) :: (phdr, 'r, 'l param_vars_scheme, world) cmd"
  have "wp False ?pre (\<lambda>ph0 l' w'. l' = l \<and> whole sock w0 m (enc_phdr ph @ bs) q (out @ eval_request True s) w')
      (\<lambda>_ _ _. False) (\<lambda>_ _ _. False) l w"
    unfolding wp_chain
    by (rule whole_channel.request_rule [OF h p, where code = CMD_eval])
      (use fits in \<open>simp_all add: fits_packet_cstr eval_request_def\<close>)
  then obtain ph0 w1 where 1: "?pre (l, w) = Val ph0 (l, w1)"
    "whole sock w0 m (enc_phdr ph @ bs) q (out @ eval_request True s) w1"
    by - (drule wp_Val, auto)
  have "runs False (read_hdr sock ph0 w1) (\<lambda>r w'. r = (0, ph) \<and> whole sock w0 m bs q (out @ eval_request True s) w')"
    by (rule runs_read_hdr_whole [OF 1(2) sock]) simp
  then obtain w2 where 2: "read_hdr sock ph0 w1 = Done (0, ph) w2" "whole sock w0 m bs q (out @ eval_request True s) w2"
    by (auto dest!: runs_total)
  show ?thesis
    by (rule that [OF 2(2)]) (subst chain_assoc, subst exec_chain, simp add: 1, simp add: exec_chain 2)
qed

end
