(* ===== verification/Queries.thy ===== *)
theory Queries
  imports Segment
begin

text \<open>
  The functions that ask the server one question and read a scalar out of the answer: src/exists.c,
  src/get_bool.c, src/chk_R_class.c, src/n_df.c and the two definitions of \<open>get_vec_len\<close>. Each is
  written over an evaluation function (the \<open>_via\<close> definitions), which is \<open>exec_str\<close> on the
  function's socket in the program; so each is verified once, against the interface \<open>evaluator\<close>.
\<close>

section \<open>Locals and shared statements\<close>

record 'a query_vars =
  q_cmd :: ptr
  q_out :: ptr
  q_len :: size_t
  q_x :: "'a option"

text \<open>The locals at the start: null pointers, and nothing stored yet through the out-pointer.\<close>

definition query_begin :: "'a option \<Rightarrow> 'a query_vars" where
  "query_begin x = \<lparr>q_cmd = Null, q_out = Null, q_len = 0, q_x = x\<rparr>"

abbreviation query_start :: "'a query_vars" where
  "query_start \<equiv> query_begin None"

text \<open>\<open>exec_str(sock, str, &exec_out, &len_out, xt)\<close> on locals.\<close>

definition query_exec :: "evaluation \<Rightarrow> cstr \<Rightarrow> int \<Rightarrow> (int, 'r, 'a query_vars, world) cmd" where
  "query_exec ev s xt =
     chain (call (ev s xt)) (\<lambda>(status, out).
     chain (upd_loc (\<lambda>l. case out of None \<Rightarrow> l | Some (p, n) \<Rightarrow> l\<lparr>q_out := p, q_len := n\<rparr>)) (\<lambda>_.
     done_with status))"

text \<open>
  A command built in a block of \<open>(int)sz\<close> bytes: \<open>int len = sz; Rcmd = malloc(len)\<close>, zeroed where the source does so,
  then \<open>sprintf\<close> and \<open>exec_str\<close>.
\<close>

definition query_cmd ::
    "evaluation \<Rightarrow> bool \<Rightarrow> size_t \<Rightarrow> cstr \<Rightarrow> int \<Rightarrow> (int, 'r, 'a query_vars, world) cmd" where
  "query_cmd ev zeroed sz text xt =
     (let n = size_of_int (to_int sz) in
     chain (call (sys_malloc n)) (\<lambda>p.
     chain (upd_loc (\<lambda>l. l\<lparr>q_cmd := p\<rparr>)) (\<lambda>_.
     chain (bye_when (p = Null) (-1)) (\<lambda>_.
     chain (if zeroed then call (store p 0 (replicate (unat n) 0)) else done_with ()) (\<lambda>_.
     chain (call (store p 0 (text @ [0]))) (\<lambda>_.
     chain (call (load_str p)) (\<lambda>str.
     query_exec ev str xt)))))))"

text \<open>The BYE sections free both blocks; \<open>query_end\<close> is the one of the functions with an out-value.\<close>

definition query_end :: "int \<Rightarrow> 'a query_vars \<Rightarrow> world \<Rightarrow> (int \<times> 'a option, world) outcome" where
  "query_end status l w = obind (free_all [q_cmd l, q_out l] w) (\<lambda>_ w'. Done (status, q_x l) w')"

definition set_x :: "'a \<Rightarrow> (unit, 'r, 'a query_vars, world) cmd" where
  "set_x x = upd_loc (\<lambda>l. l\<lparr>q_x := Some x\<rparr>)"

section \<open>exists1, exists2, is_vector\<close>

text \<open>The lines both strict readers of a logical share: exactly eight bytes, one element, its low bit.\<close>

definition read_bool1 :: "int \<Rightarrow> (int, 'r, bool query_vars, world) cmd" where
  "read_bool1 status =
     chain (get_loc q_out) (\<lambda>exec_out.
     chain (bye_when (exec_out = Null) (-1)) (\<lambda>_.
     chain (get_loc q_len) (\<lambda>len_out.
     chain (bye_when (len_out \<noteq> 8) (-1)) (\<lambda>_.
     chain (call (load exec_out 0 1)) (\<lambda>b.
     let num_elements = sint (hd b) in
     chain (bye_when (num_elements \<noteq> 1) (-1)) (\<lambda>_.
     chain (call (load_u32 exec_out 1)) (\<lambda>v.
     chain (set_x (v AND 1 \<noteq> 0)) (\<lambda>_.
     done_with status))))))))"

text \<open>The lenient readers take byte 4 of any non-empty answer, and any nonzero byte is true.\<close>

definition read_bool2 :: "int \<Rightarrow> (int, 'r, bool query_vars, world) cmd" where
  "read_bool2 status =
     chain (get_loc q_out) (\<lambda>exec_out.
     chain (get_loc q_len) (\<lambda>len_out.
     chain (bye_when (exec_out = Null \<or> len_out = 0) (-1)) (\<lambda>_.
     chain (call (load exec_out 4 1)) (\<lambda>b.
     chain (set_x (hd b \<noteq> 0)) (\<lambda>_.
     done_with status)))))"

definition exists_text :: "cstr \<Rightarrow> cstr" where
  "exists_text name = lit ''exists('' @ [34] @ name @ [34] @ lit '')''"

definition is_vector_text :: "cstr \<Rightarrow> cstr" where
  "is_vector_text name = lit ''is.vector('' @ [34] @ name @ [34] @ lit '')''"

definition exists2_via :: "evaluation \<Rightarrow> int \<Rightarrow> cstr option \<Rightarrow> world \<Rightarrow> (int \<times> bool option, world) outcome" where
  "exists2_via ev sock name = proc query_start
     (chain (bye_when (sock < 0) (-1)) (\<lambda>_.
      case name of None \<Rightarrow> go_BYE (-1)
      | Some s \<Rightarrow>
         chain (query_cmd ev True (of_nat (length s) + 10 + 16) (exists_text s)
                 (int (unat XT_ARRAY_BOOL))) (\<lambda>status.
         read_bool2 status)))
     query_end"

definition exists1_via :: "evaluation \<Rightarrow> int \<Rightarrow> cstr option \<Rightarrow> world \<Rightarrow> (int \<times> bool option, world) outcome" where
  "exists1_via ev sock val = proc query_start
     (chain (bye_when (sock < 0) (-1)) (\<lambda>_.
      case val of None \<Rightarrow> go_BYE (-1)
      | Some s \<Rightarrow>
         chain (query_cmd ev True (of_nat (length s) + 10 + 16) (exists_text s)
                 (int (unat XT_ARRAY_BOOL))) (\<lambda>status.
         read_bool1 status)))
     query_end"

definition is_vector_via :: "evaluation \<Rightarrow> int \<Rightarrow> cstr option \<Rightarrow> world \<Rightarrow> (int \<times> bool option, world) outcome" where
  "is_vector_via ev sock name = proc query_start
     (chain (bye_when (sock < 0) (-1)) (\<lambda>_.
      case name of None \<Rightarrow> go_BYE (-1)
      | Some s \<Rightarrow>
         chain (query_cmd ev True (of_nat (length s) + 13 + 16) (is_vector_text s)
                 (int (unat XT_ARRAY_BOOL))) (\<lambda>status.
         read_bool2 status)))
     query_end"

definition exists2 :: "int \<Rightarrow> cstr option \<Rightarrow> world \<Rightarrow> (int \<times> bool option, world) outcome" where
  "exists2 sock = exists2_via (eval_on sock) sock"

definition exists1 :: "int \<Rightarrow> cstr option \<Rightarrow> world \<Rightarrow> (int \<times> bool option, world) outcome" where
  "exists1 sock = exists1_via (eval_on sock) sock"

definition is_vector :: "int \<Rightarrow> cstr option \<Rightarrow> world \<Rightarrow> (int \<times> bool option, world) outcome" where
  "is_vector sock = is_vector_via (eval_on sock) sock"

section \<open>get_bool, set_bool\<close>

definition get_bool_via :: "evaluation \<Rightarrow> int \<Rightarrow> cstr option \<Rightarrow> world \<Rightarrow> (int \<times> bool option, world) outcome" where
  "get_bool_via ev sock name = proc query_start
     (chain (bye_when (sock \<le> 0) (-1)) (\<lambda>_.
      case name of None \<Rightarrow> go_BYE (-1)
      | Some s \<Rightarrow>
         chain (query_exec ev s (int (unat XT_ARRAY_BOOL))) (\<lambda>status.
         read_bool1 status)))
     query_end"

text \<open>\<open>set_bool\<close> measures \<open>name\<close> before any check, and has no output.\<close>

definition set_bool_text :: "cstr \<Rightarrow> bool \<Rightarrow> cstr" where
  "set_bool_text name x = name @ lit (if x then '' <- TRUE '' else '' <- FALSE '')"

definition set_bool_via :: "evaluation \<Rightarrow> cstr option \<Rightarrow> bool \<Rightarrow> world \<Rightarrow> (int, world) outcome" where
  "set_bool_via ev name x = proc (query_start :: unit query_vars)
     (case name of None \<Rightarrow> fault Null_deref
      | Some s \<Rightarrow>
         chain (query_cmd ev False (of_nat (length s) + 10 + 16) (set_bool_text s x) (-1)) (\<lambda>status.
         chain (cBYE status) (\<lambda>_.
         done_with status)))
     (\<lambda>status l w. obind (free_all [q_out l, q_cmd l] w) (\<lambda>_ w'. Done status w'))"

definition get_bool :: "int \<Rightarrow> cstr option \<Rightarrow> world \<Rightarrow> (int \<times> bool option, world) outcome" where
  "get_bool sock = get_bool_via (eval_on sock) sock"

definition set_bool :: "int \<Rightarrow> cstr option \<Rightarrow> bool \<Rightarrow> world \<Rightarrow> (int, world) outcome" where
  "set_bool sock = set_bool_via (eval_on sock)"

section \<open>get_vec_len\<close>

definition length_text :: "cstr \<Rightarrow> cstr" where
  "length_text name = lit ''length('' @ name @ lit '')''"

text \<open>The first element of an integer answer.\<close>

definition read_int0 :: "int \<Rightarrow> (int, 'r, int query_vars, world) cmd" where
  "read_int0 status =
     chain (cBYE status) (\<lambda>_.
     chain (get_loc q_out) (\<lambda>exec_out.
     chain (get_loc q_len) (\<lambda>len_out.
     chain (bye_when (exec_out = Null \<or> len_out = 0) (-1)) (\<lambda>_.
     chain (call (load_u32 exec_out 0)) (\<lambda>v.
     chain (set_x (sint v)) (\<lambda>_.
     done_with status))))))"

definition free_out_cmd :: "int \<Rightarrow> 'a query_vars \<Rightarrow> world \<Rightarrow> (int \<times> 'a option, world) outcome" where
  "free_out_cmd status l w = obind (free_all [q_out l, q_cmd l] w) (\<lambda>_ w'. Done (status, q_x l) w')"

text \<open>The definition in src/get_vec.c, which is the one the library links.\<close>

definition get_vec_len_via :: "evaluation \<Rightarrow> cstr option \<Rightarrow> world \<Rightarrow> (int \<times> int option, world) outcome" where
  "get_vec_len_via ev name = proc query_start
     (case name of None \<Rightarrow> fault Null_deref
      | Some s \<Rightarrow>
         chain (query_cmd ev False (of_nat (length s) + 16) (length_text s)
                 (int (unat XT_ARRAY_INT))) (\<lambda>status.
         read_int0 status))
     free_out_cmd"

text \<open>The one in src/get_vec_len.c: with checks, and an output of -1 from the start.\<close>

definition get_vec_len2_via :: "evaluation \<Rightarrow> int \<Rightarrow> cstr option \<Rightarrow> world \<Rightarrow> (int \<times> int option, world) outcome" where
  "get_vec_len2_via ev sock name = proc query_start
     (chain (bye_when (sock < 0) (-1)) (\<lambda>_.
      case name of None \<Rightarrow> go_BYE (-1)
      | Some s \<Rightarrow>
         chain (set_x (-1)) (\<lambda>_.
         chain (query_cmd ev False (of_nat (length s) + 8 + 16) (length_text s)
                 (int (unat XT_ARRAY_INT))) (\<lambda>status.
         read_int0 status))))
     free_out_cmd"

definition get_vec_len :: "int \<Rightarrow> cstr option \<Rightarrow> world \<Rightarrow> (int \<times> int option, world) outcome" where
  "get_vec_len sock = get_vec_len_via (eval_on sock)"

definition get_vec_len2 :: "int \<Rightarrow> cstr option \<Rightarrow> world \<Rightarrow> (int \<times> int option, world) outcome" where
  "get_vec_len2 sock = get_vec_len2_via (eval_on sock) sock"

section \<open>chk_R_class\<close>

text \<open>\<open>sprintf\<close> into an automatic array of \<open>cap\<close> bytes.\<close>

definition sprintf_array :: "nat \<Rightarrow> cstr \<Rightarrow> (cstr, 'r, 'l, 'w) cmd" where
  "sprintf_array cap text = (if length text < cap then done_with text else fault Out_of_bounds)"

definition class_text :: "cstr \<Rightarrow> cstr" where
  "class_text name = lit ''class('' @ name @ lit '')''"

text \<open>Every way of leaving frees \<open>exec_out\<close>; the result is true only on the early return.\<close>

definition chk_R_class_via :: "evaluation \<Rightarrow> int \<Rightarrow> cstr option \<Rightarrow> cstr option \<Rightarrow> world \<Rightarrow> (bool, world) outcome" where
  "chk_R_class_via ev sock name class = proc (query_start :: unit query_vars)
     (chain (return_when (sock \<le> 0) False) (\<lambda>_.
      case name of None \<Rightarrow> return_with False
      | Some s \<Rightarrow>
      (case class of None \<Rightarrow> return_with False
      | Some c \<Rightarrow>
         chain (sprintf_array 1024 (class_text s)) (\<lambda>cmd.
         chain (query_exec ev cmd (int (unat XT_ARRAY_STR))) (\<lambda>status.
         chain (cBYE status) (\<lambda>_.
         chain (get_loc q_out) (\<lambda>exec_out.
         chain (get_loc q_len) (\<lambda>len_out.
         chain (bye_when (exec_out = Null \<or> len_out = 0) (-1)) (\<lambda>_.
         chain (call (load_str exec_out)) (\<lambda>r.
         if r = c
         then chain (call (sys_free exec_out)) (\<lambda>_.
              chain (upd_loc (\<lambda>l. l\<lparr>q_out := Null, q_len := 0\<rparr>)) (\<lambda>_.
              return_with True))
         else done_with status)))))))))) 
     (\<lambda>status l w. obind (free_all [q_out l] w) (\<lambda>_ w'. Done False w'))"

definition chk_R_class :: "int \<Rightarrow> cstr option \<Rightarrow> cstr option \<Rightarrow> world \<Rightarrow> (bool, world) outcome" where
  "chk_R_class sock = chk_R_class_via (eval_on sock) sock"

section \<open>n_df\<close>

text \<open>The error returns leave without the BYE section, so without freeing \<open>exec_out\<close>.\<close>

definition call_text :: "cstr \<Rightarrow> cstr \<Rightarrow> cstr" where
  "call_text fn name = fn @ lit ''('' @ name @ lit '')''"

definition df_error :: u32 where
  "df_error = 0xFFFFFFFF"

definition n_df_via :: "evaluation \<Rightarrow> int \<Rightarrow> cstr \<Rightarrow> cstr option \<Rightarrow> world \<Rightarrow> (u32, world) outcome" where
  "n_df_via ev sock fn name = proc (query_start :: u32 query_vars)
     (chain (return_when (sock < 0) df_error) (\<lambda>_.
      case name of None \<Rightarrow> fault Null_deref
      | Some s \<Rightarrow>
      chain (sprintf_array 1024 (call_text fn s)) (\<lambda>cmd.
      chain (query_exec ev cmd (int (unat XT_ARRAY_INT))) (\<lambda>status.
      chain (return_when (status \<noteq> 0) df_error) (\<lambda>_.
      chain (get_loc q_out) (\<lambda>exec_out.
      chain (return_when (exec_out = Null) df_error) (\<lambda>_.
      chain (get_loc q_len) (\<lambda>len_out.
      chain (return_when (len_out = 0) df_error) (\<lambda>_.
      chain (call (load_u32 exec_out 0)) (\<lambda>v.
      let itmp = sint v in
      chain (return_when (itmp < 0) df_error) (\<lambda>_.
      chain (set_x (word_of_int itmp)) (\<lambda>_.
      done_with status))))))))))))
     (\<lambda>status l w. obind (free_all [q_out l] w) (\<lambda>_ w'. Done (the (q_x l)) w'))"

definition n_df :: "int \<Rightarrow> cstr \<Rightarrow> cstr option \<Rightarrow> world \<Rightarrow> (u32, world) outcome" where
  "n_df sock = n_df_via (eval_on sock) sock"

definition ncols_df :: "int \<Rightarrow> cstr option \<Rightarrow> world \<Rightarrow> (u32, world) outcome" where
  "ncols_df sock name = n_df sock (lit ''length'') name"

definition nrows_df :: "int \<Rightarrow> cstr option \<Rightarrow> world \<Rightarrow> (u32, world) outcome" where
  "nrows_df sock name = n_df sock (lit ''nrow'') name"

section \<open>Rules for the shared statements\<close>

text \<open>What the two readers of a logical make of an answer's bytes, and the reader of an integer.\<close>

definition bool1_of :: "byte list \<Rightarrow> bool option" where
  "bool1_of d = (if length d = 8 \<and> hd d = 1 then Some (u32_at d 1 AND 1 \<noteq> 0) else None)"

definition bool2_of :: "byte list \<Rightarrow> bool option" where
  "bool2_of d = (if d = [] then None else Some (d ! 4 \<noteq> 0))"

definition int0_of :: "byte list \<Rightarrow> int option" where
  "int0_of d = (if d = [] then None else Some (sint (u32_at d 0)))"

lemma sint_byte_1: "sint (b :: byte) = 1 \<longleftrightarrow> b = 1"
proof
  assume "sint b = 1"
  then have "(word_of_int (sint b) :: byte) = 1" by simp
  then show "b = 1" by simp
qed simp

context allocator
begin

lemma read_bool1_rule:
  assumes l: "q_out l = Ptr j" and a: "A m w" "m j = Some d" "length d \<le> ptrdiff_max"
    and ln: "q_len l = of_nat (length d)"
    and N: "bool1_of d = None \<Longrightarrow> B (-1) l w" and Q: "\<And>x. bool1_of d = Some x \<Longrightarrow> Q st (l\<lparr>q_x := Some x\<rparr>) w"
  shows "wp blk (read_bool1 st) Q B R l w"
proof -
  have n8: "of_nat (length d) = (8 :: size_t) \<longleftrightarrow> length d = 8"
    using of_nat_eq_size [of "length d" 8] a(3) by (simp add: ptrdiff_max_def)
  have hd: "length d = 8 \<Longrightarrow> hd (take (Suc 0) d) = hd d" by (cases d) simp_all
  show ?thesis
    unfolding read_bool1_def
    apply (simp add: wp_simps l ln n8 set_x_def)
    apply (intro conjI impI)
     apply (rule N, simp add: bool1_of_def)
    apply (rule load [OF a(1,2)], simp)
    apply (simp add: hd wp_simps sint_byte_1)
    apply (intro conjI impI)
     apply (rule N, simp add: bool1_of_def)
    apply (rule load_u32 [OF a(1,2)], simp)
    apply (rule Q, simp add: bool1_of_def)
    done
qed

lemma read_bool2_rule:
  assumes l: "q_out l = Ptr j" and a: "A m w" "m j = Some d" "length d \<le> ptrdiff_max" "d \<noteq> [] \<Longrightarrow> 5 \<le> length d"
    and ln: "q_len l = of_nat (length d)"
    and N: "bool2_of d = None \<Longrightarrow> B (-1) l w" and Q: "\<And>x. bool2_of d = Some x \<Longrightarrow> Q st (l\<lparr>q_x := Some x\<rparr>) w"
  shows "wp blk (read_bool2 st) Q B R l w"
proof -
  have n0: "of_nat (length d) = (0 :: size_t) \<longleftrightarrow> d = []"
    using of_nat_eq_size [of "length d" 0] a(3) by (simp add: ptrdiff_max_def)
  have hd: "d \<noteq> [] \<Longrightarrow> hd (drop 4 d) = d ! 4"
    using a(4) by (simp add: hd_drop_conv_nth)
  show ?thesis
    unfolding read_bool2_def
    apply (simp add: wp_simps l ln n0 set_x_def)
    apply (intro conjI impI)
     apply (rule N, simp add: bool2_of_def)
    apply (rule load [OF a(1,2)], use a(4) in simp)
    apply (simp add: hd wp_simps)
    apply (rule Q, simp add: bool2_of_def)
    done
qed

lemma read_int0_rule:
  assumes l: "q_out l = Ptr j" and a: "A m w" "m j = Some d" "length d \<le> ptrdiff_max" "d \<noteq> [] \<Longrightarrow> 4 \<le> length d" "0 \<le> st"
    and ln: "q_len l = of_nat (length d)"
    and N: "int0_of d = None \<Longrightarrow> B (-1) l w" and Q: "\<And>x. int0_of d = Some x \<Longrightarrow> Q st (l\<lparr>q_x := Some x\<rparr>) w"
  shows "wp blk (read_int0 st) Q B R l w"
proof -
  have n0: "of_nat (length d) = (0 :: size_t) \<longleftrightarrow> d = []"
    using of_nat_eq_size [of "length d" 0] a(3) by (simp add: ptrdiff_max_def)
  have ns: "\<not> st < 0" using a(5) by simp
  show ?thesis
    unfolding read_int0_def
    apply (simp add: wp_simps l ln n0 set_x_def ns)
    apply (intro conjI impI)
     apply (rule N, simp add: int0_of_def)
    apply (rule load_u32 [OF a(1,2)], use a(4) in simp)
    apply (rule Q, simp add: int0_of_def)
    done
qed

end

context evaluator
begin

lemma query_exec_rule:
  assumes a: "A m w" "asks s xt" and l: "q_out l = Null" "q_len l = 0"
    and F: "\<And>st w'. faulty \<Longrightarrow> A' m w' \<Longrightarrow> st < 0 \<Longrightarrow> Q st l w'"
    and P: "\<And>j d w'. A' (m(j \<mapsto> d)) w' \<Longrightarrow> m j = None \<Longrightarrow> answer d \<Longrightarrow> length d \<le> ptrdiff_max \<Longrightarrow>
       Q 0 (l\<lparr>q_out := Ptr j, q_len := of_nat (length d)\<rparr>) w'"
  shows "wp blk (query_exec ev s xt) Q B R l w"
proof -
  have n: "l\<lparr>q_out := Null, q_len := 0\<rparr> = l" using l by (cases l) simp
  show ?thesis
    unfolding query_exec_def wp_simps
    by (rule eval [OF a]) (auto simp: wp_simps n intro: F P)
qed

lemma query_cmd_rule:
  assumes a: "A m w" "asks text xt" and tx: "no_nul text" "int (length text) < to_int sz"
    and l: "q_cmd l = Null" "q_out l = Null" "q_len l = 0"
    and N: "\<And>w'. faulty \<Longrightarrow> A m w' \<Longrightarrow> B (-1) l w'"
    and F: "\<And>i b st w'. faulty \<Longrightarrow> A' (m(i \<mapsto> b)) w' \<Longrightarrow> m i = None \<Longrightarrow> st < 0 \<Longrightarrow> Q st (l\<lparr>q_cmd := Ptr i\<rparr>) w'"
    and P: "\<And>i b j d w'. A' (m(i \<mapsto> b, j \<mapsto> d)) w' \<Longrightarrow> m i = None \<Longrightarrow> m j = None \<Longrightarrow> i \<noteq> j \<Longrightarrow>
       answer d \<Longrightarrow> length d \<le> ptrdiff_max \<Longrightarrow>
       Q 0 (l\<lparr>q_cmd := Ptr i, q_out := Ptr j, q_len := of_nat (length d)\<rparr>) w'"
  shows "wp blk (query_cmd ev zeroed sz text xt) Q B R l w"
proof -
  have l1: "l\<lparr>q_cmd := Null\<rparr> = l" using l by (cases l) simp
  have sz: "unat (size_of_int (to_int sz)) = nat (to_int sz)"
  proof -
    have "0 \<le> to_int sz" using tx by simp
    moreover have "to_int sz < 2 ^ 64" using to_int_bounds(2) [of sz] by simp
    ultimately show ?thesis by (simp add: size_of_int_def unsigned_of_int take_bit_int_eq_self)
  qed
  have fits: "length text + 1 \<le> unat (size_of_int (to_int sz))" "unat (size_of_int (to_int sz)) \<le> ptrdiff_max"
    using tx to_int_bounds(2) [of sz] unfolding sz by (simp_all add: ptrdiff_max_def)
  have tail: "wp blk (chain (call (store (Ptr i) 0 (text @ [0]))) (\<lambda>_.
       chain (call (load_str (Ptr i))) (\<lambda>str. query_exec ev str xt))) Q B R (l\<lparr>q_cmd := Ptr i\<rparr>) w'"
    if b: "A (m(i \<mapsto> b)) w'" "m i = None" "length text + 1 \<le> length b" for i b w'
    unfolding wp_simps
    apply (rule pre.store [OF b(1)], simp, use b(3) in simp)
    apply (rule pre.load_str, assumption, simp, simp)
    apply (simp add: tx)
    apply (rule query_exec_rule, assumption, rule a, simp add: l, simp add: l)
     apply (erule (1) F, rule b, assumption)
    apply (rule P, assumption, rule b)
       apply (auto split: if_splits simp: b)
    done
  show ?thesis
    unfolding query_cmd_def Let_def wp_chain
    apply (simp only: wp_simps)
    apply (rule pre.malloc [OF a(1)])
      apply (simp add: fits)
     apply (simp add: wp_simps l1 N)
    apply (cases zeroed)
     apply (simp_all add: wp_simps)
     apply (rule pre.store, assumption, simp, simp)
    using tail [unfolded wp_simps] fits apply simp
    using tail [unfolded wp_simps] fits apply simp
    done
qed

end

section \<open>Rules for the functions\<close>

text \<open>A name short enough that the commands built from it are sized within \<open>int\<close>.\<close>

definition short_name :: "cstr \<Rightarrow> bool" where
  "short_name s \<longleftrightarrow> no_nul s \<and> length s + 64 < 2 ^ 31"

lemma short_name_size:
  "short_name s \<Longrightarrow> k \<le> 64 \<Longrightarrow> to_int (of_nat (length s) + of_nat k :: size_t) = int (length s + k)"
  using to_int_of_nat [where 'a = 64, of "length s + k"] by (simp add: short_name_def)

lemma to_int_name_size [simp]:
  assumes "short_name s" "numeral k \<le> (64 :: nat)"
  shows "to_int (numeral k + of_nat (length s) :: size_t) = int (length s) + numeral k"
   and "to_int (of_nat (length s) + numeral k :: size_t) = int (length s) + numeral k"
  using short_name_size [OF assms] by (simp_all add: add.commute)

lemma text_length [simp]:
  "length (exists_text s) = length s + 10" "length (is_vector_text s) = length s + 13"
  "length (length_text s) = length s + 8" "length (class_text s) = length s + 7"
  "length (set_bool_text s x) = length s + (if x then 9 else 10)"
  "length (call_text fn s) = length fn + length s + 2"
  by (simp_all add: exists_text_def is_vector_text_def length_text_def class_text_def
      set_bool_text_def call_text_def)

lemma text_no_nul [simp]:
  "no_nul s \<Longrightarrow> no_nul (exists_text s)" "no_nul s \<Longrightarrow> no_nul (is_vector_text s)"
  "no_nul s \<Longrightarrow> no_nul (length_text s)" "no_nul s \<Longrightarrow> no_nul (class_text s)"
  "no_nul s \<Longrightarrow> no_nul (set_bool_text s x)" "no_nul fn \<Longrightarrow> no_nul s \<Longrightarrow> no_nul (call_text fn s)"
  by (simp_all add: exists_text_def is_vector_text_def length_text_def class_text_def
      set_bool_text_def call_text_def)

lemma query_start_simps [simp]:
  "q_cmd query_start = Null" "q_out query_start = Null" "q_len query_start = 0" "q_x query_start = None"
  by (simp_all add: query_begin_def)

text \<open>
  One rule per function. \<open>E\<close> is what holds when the environment fails, \<open>P\<close> when an answer came; in
  both cases everything the function allocated is gone, except where \<open>n_df\<close> leaks (\<open>L\<close>).
\<close>

context evaluator
begin

lemma exists1_rule:
  assumes a: "A m w" and n: "name = Some s" "0 \<le> sock" "short_name s" "asks (exists_text s) (int (unat XT_ARRAY_BOOL))"
    and E: "\<And>w'. faulty \<Longrightarrow> A m w' \<or> A' m w' \<Longrightarrow> Q (-1, None) w'"
    and P: "\<And>d w'. A' m w' \<Longrightarrow> answer d \<Longrightarrow> Q (case bool1_of d of None \<Rightarrow> (-1, None) | Some x \<Rightarrow> (0, Some x)) w'"
  shows "runs blk (exists1_via ev sock name w) Q"
proof -
  have ns: "\<not> sock < 0" using n by simp
  have nn: "no_nul s" using n(3) by (simp add: short_name_def)
  show ?thesis
  unfolding exists1_via_def n(1) option.case wp_simps query_end_def
  apply (simp only: ns if_False)
  apply (rule query_cmd_rule [OF a n(4)])
        apply (simp add: nn)
       apply (simp add: n)
      apply simp_all[3]
    apply (simp add: E wp_simps)
   apply (simp add: read_bool1_def wp_simps)
   apply (rule post.free, assumption, simp, simp add: E)
  apply (rule post.read_bool1_rule, simp, assumption, simp, assumption, simp)
   apply (simp del: free_all.simps add: wp_simps, rule post.free_pair, assumption+, drule P, assumption, simp)+
  done
qed

lemma exists2_rule:
  assumes a: "A m w" and n: "name = Some s" "0 \<le> sock" "short_name s" "asks (exists_text s) (int (unat XT_ARRAY_BOOL))"
    and d: "\<And>d. answer d \<Longrightarrow> d \<noteq> [] \<Longrightarrow> 5 \<le> length d"
    and E: "\<And>w'. faulty \<Longrightarrow> A m w' \<or> A' m w' \<Longrightarrow> Q (-1, None) w'"
    and P: "\<And>d w'. A' m w' \<Longrightarrow> answer d \<Longrightarrow> Q (case bool2_of d of None \<Rightarrow> (-1, None) | Some x \<Rightarrow> (0, Some x)) w'"
  shows "runs blk (exists2_via ev sock name w) Q"
proof -
  have ns: "\<not> sock < 0" using n by simp
  have nn: "no_nul s" using n(3) by (simp add: short_name_def)
  show ?thesis
  unfolding exists2_via_def n(1) option.case wp_simps query_end_def
  apply (simp only: ns if_False)
  apply (rule query_cmd_rule [OF a n(4)])
        apply (simp add: nn)
       apply (simp add: n)
      apply simp_all[3]
    apply (simp add: E wp_simps)
   apply (simp add: read_bool2_def wp_simps)
   apply (rule post.free, assumption, simp, simp add: E)
  apply (rule post.read_bool2_rule, simp, assumption, simp, assumption, erule (1) d, simp)
   apply (simp del: free_all.simps add: wp_simps, rule post.free_pair, assumption+, drule P, assumption, simp)+
  done
qed

lemma is_vector_rule:
  assumes a: "A m w" and n: "name = Some s" "0 \<le> sock" "short_name s" "asks (is_vector_text s) (int (unat XT_ARRAY_BOOL))"
    and d: "\<And>d. answer d \<Longrightarrow> d \<noteq> [] \<Longrightarrow> 5 \<le> length d"
    and E: "\<And>w'. faulty \<Longrightarrow> A m w' \<or> A' m w' \<Longrightarrow> Q (-1, None) w'"
    and P: "\<And>d w'. A' m w' \<Longrightarrow> answer d \<Longrightarrow> Q (case bool2_of d of None \<Rightarrow> (-1, None) | Some x \<Rightarrow> (0, Some x)) w'"
  shows "runs blk (is_vector_via ev sock name w) Q"
proof -
  have ns: "\<not> sock < 0" using n by simp
  have nn: "no_nul s" using n(3) by (simp add: short_name_def)
  show ?thesis
  unfolding is_vector_via_def n(1) option.case wp_simps query_end_def
  apply (simp only: ns if_False)
  apply (rule query_cmd_rule [OF a n(4)])
        apply (simp add: nn)
       apply (simp add: n)
      apply simp_all[3]
    apply (simp add: E wp_simps)
   apply (simp add: read_bool2_def wp_simps)
   apply (rule post.free, assumption, simp, simp add: E)
  apply (rule post.read_bool2_rule, simp, assumption, simp, assumption, erule (1) d, simp)
   apply (simp del: free_all.simps add: wp_simps, rule post.free_pair, assumption+, drule P, assumption, simp)+
  done
qed

lemma get_bool_rule:
  assumes a: "A m w" and n: "name = Some s" "0 < sock" "asks s (int (unat XT_ARRAY_BOOL))"
    and E: "\<And>w'. faulty \<Longrightarrow> A' m w' \<Longrightarrow> Q (-1, None) w'"
    and P: "\<And>d w'. A' m w' \<Longrightarrow> answer d \<Longrightarrow> Q (case bool1_of d of None \<Rightarrow> (-1, None) | Some x \<Rightarrow> (0, Some x)) w'"
  shows "runs blk (get_bool_via ev sock name w) Q"
proof -
  have ns: "\<not> sock \<le> 0" using n by simp
  show ?thesis
  unfolding get_bool_via_def n(1) option.case wp_simps query_end_def
  apply (simp only: ns if_False)
  apply (rule query_exec_rule [OF a n(3)], simp, simp)
   apply (simp add: read_bool1_def wp_simps E)
  apply (rule post.read_bool1_rule, simp, assumption, simp, assumption, simp)
   apply (simp add: wp_simps, rule post.free, assumption, simp, drule P [rotated], simp, simp)+
  done
qed

lemma set_bool_rule:
  assumes a: "A m w" and n: "name = Some s" "short_name s" "asks (set_bool_text s x) (-1)"
    and E: "\<And>st w'. faulty \<Longrightarrow> A m w' \<or> A' m w' \<Longrightarrow> st < 0 \<Longrightarrow> Q st w'"
    and P: "\<And>w'. A' m w' \<Longrightarrow> Q 0 w'"
  shows "runs blk (set_bool_via ev name x w) Q"
proof -
  have nn: "no_nul s" using n(2) by (simp add: short_name_def)
  show ?thesis
  unfolding set_bool_via_def n(1) option.case wp_simps
  apply (rule query_cmd_rule [OF a n(3)])
        apply (simp add: nn)
       apply (simp add: n)
      apply simp_all[3]
    apply (simp add: E wp_simps)
   apply (simp add: wp_simps)
   apply (rule post.free, assumption, simp, simp add: E)
  apply (simp del: free_all.simps add: wp_simps, rule post.free_pair, assumption+, erule P)
  done
qed

lemma get_vec_len_rule:
  assumes a: "A m w" and n: "name = Some s" "short_name s" "asks (length_text s) (int (unat XT_ARRAY_INT))"
    and d: "\<And>d. answer d \<Longrightarrow> d \<noteq> [] \<Longrightarrow> 4 \<le> length d"
    and E: "\<And>st w'. faulty \<Longrightarrow> A m w' \<or> A' m w' \<Longrightarrow> st < 0 \<Longrightarrow> Q (st, None) w'"
    and P: "\<And>d w'. A' m w' \<Longrightarrow> answer d \<Longrightarrow> Q (case int0_of d of None \<Rightarrow> (-1, None) | Some x \<Rightarrow> (0, Some x)) w'"
  shows "runs blk (get_vec_len_via ev name w) Q"
proof -
  have nn: "no_nul s" using n(2) by (simp add: short_name_def)
  show ?thesis
  unfolding get_vec_len_via_def n(1) option.case wp_simps free_out_cmd_def
  apply (rule query_cmd_rule [OF a n(3)])
        apply (simp add: nn)
       apply (simp add: n)
      apply simp_all[3]
    apply (simp add: E wp_simps)
   apply (simp add: read_int0_def wp_simps)
   apply (rule post.free, assumption, simp, simp add: E)
  apply (rule post.read_int0_rule, simp, assumption, simp, assumption, erule (1) d, simp, simp)
   apply (simp del: free_all.simps add: wp_simps, rule post.free_pair, assumption+, drule P, assumption, simp)+
  done
qed

lemma get_vec_len2_rule:
  assumes a: "A m w" and n: "name = Some s" "0 \<le> sock" "short_name s" "asks (length_text s) (int (unat XT_ARRAY_INT))"
    and d: "\<And>d. answer d \<Longrightarrow> d \<noteq> [] \<Longrightarrow> 4 \<le> length d"
    and E: "\<And>st w'. faulty \<Longrightarrow> A m w' \<or> A' m w' \<Longrightarrow> st < 0 \<Longrightarrow> Q (st, Some (-1)) w'"
    and P: "\<And>d w'. A' m w' \<Longrightarrow> answer d \<Longrightarrow> Q (case int0_of d of None \<Rightarrow> (-1, Some (-1)) | Some x \<Rightarrow> (0, Some x)) w'"
  shows "runs blk (get_vec_len2_via ev sock name w) Q"
proof -
  have ns: "\<not> sock < 0" using n by simp
  have nn: "no_nul s" using n(3) by (simp add: short_name_def)
  show ?thesis
  unfolding get_vec_len2_via_def n(1) option.case wp_simps free_out_cmd_def set_x_def
  apply (simp only: ns if_False)
  apply (rule query_cmd_rule [OF a n(4)])
        apply (simp add: nn)
       apply (simp add: n)
      apply simp_all[3]
    apply (simp add: E wp_simps)
   apply (simp add: read_int0_def wp_simps)
   apply (rule post.free, assumption, simp, simp add: E)
  apply (rule post.read_int0_rule, simp, assumption, simp, assumption, erule (1) d, simp, simp)
   apply (simp del: free_all.simps add: wp_simps, rule post.free_pair, assumption+, drule P, assumption, simp)+
  done
qed

lemma chk_R_class_rule:
  assumes a: "A m w" and n: "0 < sock" "length s + 7 < 1024" "asks (class_text s) (int (unat XT_ARRAY_STR))"
    and d: "\<And>d. answer d \<Longrightarrow> d \<noteq> [] \<Longrightarrow> 0 \<in> set d"
    and E: "\<And>w'. faulty \<Longrightarrow> A' m w' \<Longrightarrow> Q False w'"
    and P: "\<And>d w'. A' m w' \<Longrightarrow> answer d \<Longrightarrow> Q (d \<noteq> [] \<and> takeWhile (\<lambda>b. b \<noteq> 0) d = c) w'"
  shows "runs blk (chk_R_class_via ev sock (Some s) (Some c) w) Q"
proof -
  have ns: "\<not> sock \<le> 0" using n by simp
  have sp: "sprintf_array 1024 (class_text s) = done_with (class_text s)"
    using n(2) by (simp add: sprintf_array_def)
  have n0: "length d \<le> ptrdiff_max \<Longrightarrow> of_nat (length d) = (0 :: size_t) \<longleftrightarrow> d = []" for d :: "byte list"
    using of_nat_eq_size [of "length d" 0] by (simp add: ptrdiff_max_def)
  show ?thesis
  unfolding chk_R_class_via_def option.case wp_simps sp
  apply (simp only: ns if_False)
  apply (rule query_exec_rule [OF a n(3)], simp, simp)
   apply (simp add: wp_simps E)
  apply (simp add: wp_simps n0)
  apply (intro conjI impI)
   apply (rule post.free, assumption, simp, drule P [rotated], simp, simp)
  apply (rule post.load_str, assumption, simp, erule (1) d)
  apply (intro conjI impI)
   apply (rule post.free, assumption, simp)
   apply (use P in fastforce)
  apply (rule post.free, assumption, simp)
  apply (use P in fastforce)
  done
qed

lemma n_df_rule:
  assumes a: "A m w" and n: "0 \<le> sock" "length fn + length s + 2 < 1024" "asks (call_text fn s) (int (unat XT_ARRAY_INT))"
    and d: "\<And>d. answer d \<Longrightarrow> d \<noteq> [] \<Longrightarrow> 4 \<le> length d"
    and E: "\<And>w'. faulty \<Longrightarrow> A' m w' \<Longrightarrow> Q df_error w'"
    and L: "\<And>j d w'. A' (m(j \<mapsto> d)) w' \<Longrightarrow> m j = None \<Longrightarrow> answer d \<Longrightarrow> d = [] \<or> sint (u32_at d 0) < 0 \<Longrightarrow> Q df_error w'"
    and P: "\<And>d w'. A' m w' \<Longrightarrow> answer d \<Longrightarrow> d \<noteq> [] \<Longrightarrow> 0 \<le> sint (u32_at d 0) \<Longrightarrow> Q (u32_at d 0) w'"
  shows "runs blk (n_df_via ev sock fn (Some s) w) Q"
proof -
  have ns: "\<not> sock < 0" using n by simp
  have sp: "sprintf_array 1024 (call_text fn s) = done_with (call_text fn s)"
    using n(2) by (simp add: sprintf_array_def)
  have n0: "length d \<le> ptrdiff_max \<Longrightarrow> of_nat (length d) = (0 :: size_t) \<longleftrightarrow> d = []" for d :: "byte list"
    using of_nat_eq_size [of "length d" 0] by (simp add: ptrdiff_max_def)
  show ?thesis
  unfolding n_df_via_def option.case wp_simps sp
  apply (simp only: ns if_False)
  apply (rule query_exec_rule [OF a n(3)], simp, simp)
   apply (simp add: wp_simps E)
  apply (simp add: wp_simps n0)
  apply (intro conjI impI)
   apply (rule L, assumption, assumption, simp, simp)
  apply (rule post.load_u32, assumption, simp, drule (1) d, simp)
  apply (simp add: wp_simps set_x_def)
  apply (intro conjI impI)
   apply (rule L, assumption, assumption, assumption, simp)
  apply (rule post.free, assumption, simp, drule P [rotated], simp, simp, simp, simp)
  done
qed
end

section \<open>Answers\<close>

lemma bool_array_one: "bool_array [v] = [1, 0, 0, 0, v, 0xff, 0xff, 0xff]"
proof -
  have "replicate 3 x = [x, x, x]" for x :: byte by (simp add: replicate_app_Cons_same eval_nat_numeral)
  then show ?thesis by (simp add: bool_array_def pad4_def le32_bytes)
qed

lemma length_bool_array_one [simp]: "length (bool_array [v]) = 8" "bool_array [v] \<noteq> []"
  by (simp_all add: bool_array_one)

lemma bool_of_one [simp]:
  "bool1_of (bool_array [v]) = Some (odd (unat v))" "bool2_of (bool_array [v]) = Some (v \<noteq> 0)"
proof -
  let ?d = "le_dec [v, 0xff, 0xff, 0xff] :: u32"
  have "?d AND 1 \<noteq> 0 \<longleftrightarrow> bit ?d 0" by (simp add: and_one_eq odd_iff_mod_2_eq_one bit_0)
  also have "\<dots> \<longleftrightarrow> bit v 0" by (simp add: bit_simps)
  also have "\<dots> \<longleftrightarrow> odd (unat v)" by (simp add: bit_unsigned_iff flip: bit_0)
  finally show "bool1_of (bool_array [v]) = Some (odd (unat v))"
    by (simp add: bool1_of_def bool_array_one u32_at_def)
  show "bool2_of (bool_array [v]) = Some (v \<noteq> 0)"
    by (simp add: bool2_of_def bool_array_one)
qed

lemma int0_of_array [simp]: "int0_of (int_array (v # vs)) = Some (sint v)"
  by (simp add: int0_of_def int_array_def layout_simps)

lemma name_fits [simp]:
  "short_name s \<Longrightarrow> cstr_fits (exists_text s)" "short_name s \<Longrightarrow> cstr_fits (is_vector_text s)"
  "short_name s \<Longrightarrow> cstr_fits (length_text s)" "short_name s \<Longrightarrow> cstr_fits (set_bool_text s x)"
  "short_name s \<Longrightarrow> cstr_fits s"
  by (simp_all add: cstr_fits_def short_name_def)

lemma u32_at_int_array [simp]: "u32_at (int_array (v # vs)) 0 = v"
  by (simp add: int_array_def layout_simps)

lemma length_int_array [simp]: "length (int_array vs) = 4 * length vs"
  by (simp add: int_array_def length_concat sum_list_triv o_def)

lemma int_array_not_Nil [simp]: "int_array (v # vs) \<noteq> []"
  by (metis length_int_array length_greater_0_conv length_Cons zero_less_Suc mult_pos_pos zero_less_numeral)

lemma takeWhile_str_array: "no_nul c \<Longrightarrow> takeWhile (\<lambda>b. b \<noteq> 0) (str_array (c # cs)) = c"
  by (simp add: str_array_def pad4_def)

lemma nul_in_str_array [simp]: "0 \<in> set (str_array (c # cs))" "str_array (c # cs) \<noteq> []"
  by (simp_all add: str_array_def pad4_def)

section \<open>Properties\<close>

text \<open>C12. In any environment, hostile server included, \<open>exists1\<close>, \<open>get_bool\<close> and \<open>set_bool\<close> have no
  undefined behaviour, leave the heap as they found it, block only if the peer never closes, and
  \<open>exists1\<close> and \<open>get_bool\<close> produce a value exactly when they return 0.\<close>

theorem queries_safe:
  assumes "wf_heap w" and "short_name name"
  shows "runs (\<not> closes sock w) (exists1 sock (Some name) w)
           (\<lambda>(st, x) w'. heap w' = heap w \<and> (st = 0 \<and> x \<noteq> None \<or> st = -1 \<and> x = None)) \<and>
         runs (\<not> closes sock w) (get_bool sock (Some name) w)
           (\<lambda>(st, x) w'. heap w' = heap w \<and> (st = 0 \<and> x \<noteq> None \<or> st = -1 \<and> x = None)) \<and>
         runs (\<not> closes sock w) (set_bool sock (Some name) b w)
           (\<lambda>st w'. heap w' = heap w \<and> st \<le> 0)"
proof (intro conjI)
  have s: "since sock w Map.empty w" using assms(1) by (rule since_start)
  note h = since_heap [OF assms(1)]
  show "runs (\<not> closes sock w) (exists1 sock (Some name) w)
     (\<lambda>(st, x) w'. heap w' = heap w \<and> (st = 0 \<and> x \<noteq> None \<or> st = -1 \<and> x = None))"
  proof (cases "sock < 0")
    case True
    then show ?thesis by (simp add: exists1_def exists1_via_def wp_simps query_end_def)
  next
    case False
    show ?thesis
      unfolding exists1_def
      by (rule any_eval.exists1_rule [OF s])
        (use False assms h in \<open>auto split: option.splits\<close>)
  qed
  show "runs (\<not> closes sock w) (get_bool sock (Some name) w)
     (\<lambda>(st, x) w'. heap w' = heap w \<and> (st = 0 \<and> x \<noteq> None \<or> st = -1 \<and> x = None))"
  proof (cases "sock \<le> 0")
    case True
    then show ?thesis by (simp add: get_bool_def get_bool_via_def wp_simps query_end_def)
  next
    case False
    show ?thesis
      unfolding get_bool_def
      by (rule any_eval.get_bool_rule [OF s])
        (use False assms h in \<open>auto split: option.splits\<close>)
  qed
  show "runs (\<not> closes sock w) (set_bool sock (Some name) b w) (\<lambda>st w'. heap w' = heap w \<and> st \<le> 0)"
    unfolding set_bool_def
    by (rule any_eval.set_bool_rule [OF s]) (use assms h in auto)
qed

theorem queries_safe_witness:
  "runs False (exists1 3 (Some (lit ''df'')) (peer_world []))
     (\<lambda>(st, x) w'. heap w' = Map.empty \<and> (st = 0 \<and> x \<noteq> None \<or> st = -1 \<and> x = None))"
  using queries_safe [of "peer_world []" "lit ''df''" 3] by (simp add: short_name_def)

text \<open>C13. Against a server that answers with the logical \<open>v\<close> (0, 1, or 2 for a missing value),
  \<open>exists1\<close> delivers its low bit and \<open>exists2\<close> and \<open>is_vector\<close> whether it is nonzero (so they differ on a
  missing value); each sends exactly one request, consumes exactly the reply and frees everything.\<close>

theorem exists_answers:
  assumes "serves sock (sexp_reply XT_ARRAY_BOOL (bool_array [v])) rest w" and "short_name name"
  shows "(\<exists>w'. exists1 sock (Some name) w = Done (0, Some (odd (unat v))) w'
           \<and> served sock (eval_request True (exists_text name)) rest w w') \<and>
         (\<exists>w'. exists2 sock (Some name) w = Done (0, Some (v \<noteq> 0)) w'
           \<and> served sock (eval_request True (exists_text name)) rest w w') \<and>
         (\<exists>w'. is_vector sock (Some name) w = Done (0, Some (v \<noteq> 0)) w'
           \<and> served sock (eval_request True (is_vector_text name)) rest w w')"
proof (intro conjI; rule runs_Done_ex)
  have sock: "0 \<le> sock" "wf_heap w" using assms by (simp_all add: serves_def)
  note facts = sock assms answerable_def fits_packet_def short_name_def XT_ARRAY_BOOL_def
  show "runs False (exists1 sock (Some name) w) (\<lambda>r w'. r = (0, Some (odd (unat v))) \<and>
    served sock (eval_request True (exists_text name)) rest w w')"
    unfolding exists1_def
    by (rule online_reader.ans.exists1_rule [OF servesD [OF assms(1)]])
      (use assms in \<open>auto intro!: servedI [OF sock(2)] simp: facts\<close>)
  show "runs False (exists2 sock (Some name) w) (\<lambda>r w'. r = (0, Some (v \<noteq> 0)) \<and>
    served sock (eval_request True (exists_text name)) rest w w')"
    unfolding exists2_def
    by (rule online_reader.ans.exists2_rule [OF servesD [OF assms(1)]])
      (use assms in \<open>auto intro!: servedI [OF sock(2)] simp: facts\<close>)
  show "runs False (is_vector sock (Some name) w) (\<lambda>r w'. r = (0, Some (v \<noteq> 0)) \<and>
    served sock (eval_request True (is_vector_text name)) rest w w')"
    unfolding is_vector_def
    by (rule online_reader.ans.is_vector_rule [OF servesD [OF assms(1)]])
      (use assms in \<open>auto intro!: servedI [OF sock(2)] simp: facts\<close>)
qed

theorem exists_answers_witness:
  "\<exists>w'. exists2 3 (Some (lit ''df'')) (peer_world [sexp_reply XT_ARRAY_BOOL (bool_array [1])]) = Done (0, Some True) w'
      \<and> served 3 (eval_request True (exists_text (lit ''df''))) [] (peer_world [sexp_reply XT_ARRAY_BOOL (bool_array [1])]) w'"
  using exists_answers [of 3 1 "[]" "peer_world [sexp_reply XT_ARRAY_BOOL (bool_array [1])]" "lit ''df''"]
  by (simp add: serves_def short_name_def)

text \<open>\<open>get_bool\<close> evaluates the name itself and delivers the low bit of the logical it gets.\<close>

theorem get_bool_answers:
  assumes "serves sock (sexp_reply XT_ARRAY_BOOL (bool_array [v])) rest w" and "short_name name" and "sock \<noteq> 0"
  shows "\<exists>w'. get_bool sock (Some name) w = Done (0, Some (odd (unat v))) w'
           \<and> served sock (eval_request True name) rest w w'"
proof (rule runs_Done_ex)
  have sock: "0 \<le> sock" "wf_heap w" using assms by (simp_all add: serves_def)
  then have "0 < sock" using assms(3) by simp
  then show "runs False (get_bool sock (Some name) w) (\<lambda>r w'. r = (0, Some (odd (unat v))) \<and>
    served sock (eval_request True name) rest w w')"
    unfolding get_bool_def
    by (intro online_reader.ans.get_bool_rule [OF servesD [OF assms(1)]])
      (use assms in \<open>auto intro!: servedI [OF sock(2)]
        simp: sock answerable_def fits_packet_def short_name_def XT_ARRAY_BOOL_def\<close>)
qed

theorem get_bool_answers_witness:
  "\<exists>w'. get_bool 3 (Some (lit ''flag'')) (peer_world [sexp_reply XT_ARRAY_BOOL (bool_array [1])]) = Done (0, Some True) w'"
  using get_bool_answers [of 3 1 "[]" "peer_world [sexp_reply XT_ARRAY_BOOL (bool_array [1])]" "lit ''flag''"]
  by (auto simp: serves_def short_name_def)

text \<open>C14. \<open>chk_R_class\<close> is true exactly if the first string of the class vector is the given class.\<close>

theorem chk_R_class_answers:
  assumes "serves sock (sexp_reply XT_ARRAY_STR (str_array (c # cs))) rest w" and "sock \<noteq> 0"
    and "length name + 7 < 1024" and "no_nul c" and "fits_packet (length (str_array (c # cs)))"
  shows "\<exists>w'. chk_R_class sock (Some name) (Some class) w = Done (c = class) w'
           \<and> served sock (eval_request True (class_text name)) rest w w'"
proof (rule runs_Done_ex)
  have sock: "0 \<le> sock" "wf_heap w" using assms by (simp_all add: serves_def)
  then have "0 < sock" using assms(2) by simp
  then show "runs False (chk_R_class sock (Some name) (Some class) w) (\<lambda>r w'. r = (c = class) \<and>
    served sock (eval_request True (class_text name)) rest w w')"
    unfolding chk_R_class_def
    by (intro online_reader.ans.chk_R_class_rule [OF servesD [OF assms(1)]])
      (use assms in \<open>auto intro!: servedI [OF sock(2)]
        simp: sock answerable_def fits_packet_def XT_ARRAY_STR_def takeWhile_str_array\<close>)
qed

theorem chk_R_class_answers_witness:
  "\<exists>w'. chk_R_class 3 (Some (lit ''df'')) (Some (lit ''data.frame''))
      (peer_world [sexp_reply XT_ARRAY_STR (str_array [lit ''data.frame''])]) = Done True w'"
  using chk_R_class_answers [of 3 "lit ''data.frame''" "[]" "[]"
      "peer_world [sexp_reply XT_ARRAY_STR (str_array [lit ''data.frame''])]" "lit ''df''" "lit ''data.frame''"]
  by (auto simp: serves_def fits_packet_def str_array_def pad4_def)

text \<open>\<open>ncols_df\<close> and \<open>nrows_df\<close> deliver the first integer of the answer to \<open>length(name)\<close> and
  \<open>nrow(name)\<close> when it is not negative.\<close>

theorem df_dims_answers:
  assumes "serves sock (sexp_reply XT_ARRAY_INT (int_array (v # vs))) rest w"
    and "length name + 8 < 1024" and "0 \<le> sint v" and "fits_packet (4 * length (v # vs))"
  shows "(\<exists>w'. ncols_df sock (Some name) w = Done v w'
           \<and> served sock (eval_request True (lit ''length('' @ name @ lit '')'')) rest w w') \<and>
         (\<exists>w'. nrows_df sock (Some name) w = Done v w'
           \<and> served sock (eval_request True (lit ''nrow('' @ name @ lit '')'')) rest w w')"
proof (intro conjI; rule runs_Done_ex)
  have sock: "0 \<le> sock" "wf_heap w" using assms by (simp_all add: serves_def)
  have texts: "lit ''length('' @ name @ lit '')'' = call_text (lit ''length'') name"
    "lit ''nrow('' @ name @ lit '')'' = call_text (lit ''nrow'') name"
    by (simp_all add: call_text_def lit_def)
  note facts = sock answerable_def fits_packet_def XT_ARRAY_INT_def
  show "runs False (ncols_df sock (Some name) w) (\<lambda>r w'. r = v \<and>
    served sock (eval_request True (lit ''length('' @ name @ lit '')'')) rest w w')"
    unfolding ncols_df_def n_df_def texts
    by (rule online_reader.ans.n_df_rule [OF servesD [OF assms(1)]])
      (use assms in \<open>auto intro!: servedI [OF sock(2)] simp: facts\<close>)
  show "runs False (nrows_df sock (Some name) w) (\<lambda>r w'. r = v \<and>
    served sock (eval_request True (lit ''nrow('' @ name @ lit '')'')) rest w w')"
    unfolding nrows_df_def n_df_def texts
    by (rule online_reader.ans.n_df_rule [OF servesD [OF assms(1)]])
      (use assms in \<open>auto intro!: servedI [OF sock(2)] simp: facts\<close>)
qed

theorem df_dims_answers_witness:
  "\<exists>w'. nrows_df 3 (Some (lit ''df'')) (peer_world [sexp_reply XT_ARRAY_INT (int_array [7])]) = Done 7 w'"
  using df_dims_answers [of 3 7 "[]" "[]" "peer_world [sexp_reply XT_ARRAY_INT (int_array [7])]" "lit ''df''"]
  by (auto simp: serves_def fits_packet_def)

text \<open>C31. When the answer is negative (as for a missing value), \<open>nrows_df\<close> returns \<open>0xFFFFFFFF\<close> and
  leaks the block that holds the answer.\<close>

theorem nrows_df_leaks:
  assumes "serves sock (sexp_reply XT_ARRAY_INT (int_array (v # vs))) rest w"
    and "length name + 8 < 1024" and "sint v < 0" and "fits_packet (4 * length (v # vs))"
  shows "\<exists>w' i. nrows_df sock (Some name) w = Done df_error w' \<and> heap w i = None
           \<and> heap w' = (heap w)(i \<mapsto> int_array (v # vs))"
proof -
  have sock: "0 \<le> sock" "wf_heap w" using assms by (simp_all add: serves_def)
  note facts = sock answerable_def fits_packet_def XT_ARRAY_INT_def
  have "runs False (nrows_df sock (Some name) w) (\<lambda>r w'. r = df_error \<and>
    (\<exists>i. heap w i = None \<and> heap w' = (heap w)(i \<mapsto> int_array (v # vs))))"
    unfolding nrows_df_def n_df_def
    by (rule online_reader.ans.n_df_rule [OF servesD [OF assms(1)]])
      (use assms in \<open>auto dest!: online_since since_heap_one [OF sock(2)] simp: facts\<close>)
  then show ?thesis by (auto dest!: runs_total)
qed

theorem nrows_df_leaks_witness:
  "\<exists>w'. nrows_df 3 (Some (lit ''df'')) (peer_world [sexp_reply XT_ARRAY_INT (int_array [0x80000000])]) = Done df_error w'
     \<and> heap w' \<noteq> Map.empty"
  using nrows_df_leaks [of 3 "0x80000000" "[]" "[]" "peer_world [sexp_reply XT_ARRAY_INT (int_array [0x80000000])]" "lit ''df''"]
  by (auto simp: serves_def fits_packet_def)

text \<open>Both definitions of \<open>get_vec_len\<close> deliver the first integer of the answer to \<open>length(name)\<close>.\<close>

theorem get_vec_len_answers:
  assumes "serves sock (sexp_reply XT_ARRAY_INT (int_array (v # vs))) rest w"
    and "short_name name" and "fits_packet (4 * length (v # vs))"
  shows "(\<exists>w'. get_vec_len sock (Some name) w = Done (0, Some (sint v)) w'
           \<and> served sock (eval_request True (length_text name)) rest w w') \<and>
         (\<exists>w'. get_vec_len2 sock (Some name) w = Done (0, Some (sint v)) w'
           \<and> served sock (eval_request True (length_text name)) rest w w')"
proof (intro conjI; rule runs_Done_ex)
  have sock: "0 \<le> sock" "wf_heap w" using assms by (simp_all add: serves_def)
  note facts = sock answerable_def fits_packet_def short_name_def XT_ARRAY_INT_def
  show "runs False (get_vec_len sock (Some name) w) (\<lambda>r w'. r = (0, Some (sint v)) \<and>
    served sock (eval_request True (length_text name)) rest w w')"
    unfolding get_vec_len_def
    by (rule online_reader.ans.get_vec_len_rule [OF servesD [OF assms(1)]])
      (use assms in \<open>auto intro!: servedI [OF sock(2)] simp: facts\<close>)
  show "runs False (get_vec_len2 sock (Some name) w) (\<lambda>r w'. r = (0, Some (sint v)) \<and>
    served sock (eval_request True (length_text name)) rest w w')"
    unfolding get_vec_len2_def
    by (rule online_reader.ans.get_vec_len2_rule [OF servesD [OF assms(1)]])
      (use assms in \<open>auto intro!: servedI [OF sock(2)] simp: facts\<close>)
qed

theorem get_vec_len_answers_witness:
  "\<exists>w'. get_vec_len 3 (Some (lit ''x'')) (peer_world [sexp_reply XT_ARRAY_INT (int_array [10])]) = Done (0, Some 10) w'"
  using get_vec_len_answers [of 3 10 "[]" "[]" "peer_world [sexp_reply XT_ARRAY_INT (int_array [10])]" "lit ''x''"]
  by (auto simp: serves_def fits_packet_def short_name_def)

text \<open>\<open>exists2\<close> only checks that the answer is not empty before it reads byte 4: an answer of one to
  four bytes makes it read past the block.\<close>

theorem exists2_overread:
  assumes "serves sock (sexp_reply XT_ARRAY_BOOL d) rest w" and "short_name name"
    and "d \<noteq> []" and "length d < 5"
  shows "exists2 sock (Some name) w = Undef Out_of_bounds"
proof -
  have sock: "\<not> sock < 0" "0 \<le> sock" using assms by (simp_all add: serves_def)
  have nn: "no_nul name" using assms by (simp add: short_name_def)
  define Q where "Q = (\<lambda>(st :: int) (l' :: bool query_vars) (w' :: world). st = 0 \<and> (\<exists>j. q_out l' = Ptr j \<and> q_len l' = of_nat (length d) \<and> heap w' j = Some d))"
  have "wp False (query_cmd (eval_on sock) True (of_nat (length name) + 10 + 16) (exists_text name)
      (int (unat XT_ARRAY_BOOL))) Q (\<lambda>_ _ _. False) (\<lambda>(_ :: int \<times> bool option) _ _. False) query_start w"
    apply (rule online_reader.ans.query_cmd_rule [OF servesD [OF assms(1)]])
    using assms apply (auto simp: nn Q_def answerable_def sock fits_packet_def short_name_def XT_ARRAY_BOOL_def
      intro: since_block [OF online_since])
    done
  then obtain st l' w' where *: "query_cmd (eval_on sock) True (of_nat (length name) + 10 + 16) (exists_text name)
      (int (unat XT_ARRAY_BOOL)) (query_start, w) = (Val st (l', w') :: (int, int \<times> bool option, bool query_vars \<times> world) flow)" and "Q st l' w'"
    by (auto dest!: wp_Val)
  then obtain j where j: "q_out l' = Ptr j" "q_len l' = of_nat (length d)" "heap w' j = Some d"
    by (auto simp: Q_def)
  have "of_nat (length d) \<noteq> (0 :: size_t)"
    using of_nat_eq_size [of "length d" 0] assms by simp
  then show ?thesis
    using assms(4) by (simp add: exists2_def exists2_via_def proc_def exec_chain sock * [simplified] read_bool2_def j load_def)
qed

theorem exists2_overread_witness:
  "exists2 3 (Some (lit ''x'')) (peer_world [sexp_reply XT_ARRAY_BOOL [1]]) = Undef Out_of_bounds"
  using exists2_overread [of 3 "[1]" "[]" "peer_world [sexp_reply XT_ARRAY_BOOL [1]]" "lit ''x''"]
  by (simp add: serves_def short_name_def)

end
