(* ===== verification/Connection.thy ===== *)
theory Connection
  imports Exec_Str
begin

text \<open>
  Opening and ending a session: \<open>rconnect\<close> and \<open>rshutdown\<close> of src/aux_rcli.c and the program
  src/rshutdown.c. The world plans which descriptors \<open>socket\<close> hands out, who listens where and how
  \<open>setsockopt\<close> fares.
\<close>

section \<open>rconnect\<close>

definition server_id :: "cstr" where
  "server_id = lit ''Rsrv0103QAP1''"

text \<open>Lines 310 to 322: one timeout, set only when it is positive.\<close>

definition set_timeout :: "int \<Rightarrow> sockopt \<Rightarrow> int \<Rightarrow> int \<Rightarrow> (int, 'r, 'l, world) cmd" where
  "set_timeout sock opt sec status =
     (if sec > 0
      then chain (call (sys_setsockopt sock opt)) (\<lambda>status.
           chain (cBYE status) (\<lambda>_.
           done_with status))
      else done_with status)"

text \<open>\<open>htons\<close> takes a \<open>uint16_t\<close>: the port number is cut to 16 bits. The result is the status and what is
  stored through \<open>ptr_sock\<close>, if anything.\<close>

definition rconnect ::
    "cstr option \<Rightarrow> int \<Rightarrow> int \<Rightarrow> int \<Rightarrow> world \<Rightarrow> (int \<times> int option, world) outcome" where
  "rconnect server portnum snd_timeout_sec rcv_timeout_sec = proc None
     (case server of None \<Rightarrow> go_BYE (-1)
      | Some s \<Rightarrow>
        chain (bye_when (portnum \<le> 0) (-1)) (\<lambda>_.
        chain (call sys_socket) (\<lambda>sock.
        chain (bye_when (sock < 0) (-1)) (\<lambda>_.
        let sin_port = word_of_int portnum;
            (status, sin_addr) = inet_pton s 0
        in
        chain (cBYE status) (\<lambda>_.
        chain (call (sys_connect sock sin_addr sin_port)) (\<lambda>status.
        chain (cBYE status) (\<lambda>_.
        chain (call (sys_setsockopt sock Tcp_nodelay)) (\<lambda>result.
        chain (bye_when (result < 0) (-1)) (\<lambda>_.
        chain (set_timeout sock So_rcvtimeo rcv_timeout_sec status) (\<lambda>status.
        chain (set_timeout sock So_sndtimeo snd_timeout_sec status) (\<lambda>status.
        chain (call (get_buf_from_sock sock (Some 32) 32)) (\<lambda>(status, hdr, num_read).
        chain (cBYE status) (\<lambda>_.
        chain (bye_when (num_read \<noteq> Some 32) (-1)) (\<lambda>_.
        chain (bye_when (take (length server_id) hdr \<noteq> server_id) (-1)) (\<lambda>_.
        chain (upd_loc (\<lambda>_. Some sock)) (\<lambda>_.
        done_with status))))))))))))))))
     (\<lambda>status out w. Done (status, out) w)"

section \<open>rshutdown\<close>

definition rshutdown :: "int \<Rightarrow> world \<Rightarrow> (int, world) outcome" where
  "rshutdown sock = proc ()
     (let (status, ph) = mk_hdr (Some (lit ''CMD_shutdown'')) 0 (Some fresh_phdr) in
      chain (cBYE status) (\<lambda>_.
      chain (call (sys_send sock (enc_phdr (the ph)))) (\<lambda>num_sent.
      chain (bye_when (size_of_int num_sent \<noteq> of_nat HDR_LEN) (-1)) (\<lambda>_.
      chain (call (sys_read sock 32)) (\<lambda>(nr, outbuf).
      chain (return_when (nr = 0) (-2)) (\<lambda>_.
      chain (return_when (nr < 0) (-3)) (\<lambda>_.
      chain (call (close_conn sock)) (\<lambda>status.
      chain (cBYE status) (\<lambda>_.
      done_with status)))))))))
     (\<lambda>status _ w. Done status w)"

section \<open>The program rshutdown\<close>

text \<open>Lines 14 to 21: server and port from \<open>argv\<close> (without the program's name), or the defaults.\<close>

definition shutdown_target :: "cstr list \<Rightarrow> cstr \<times> int" where
  "shutdown_target argv = (case argv of
       [a, b] \<Rightarrow> (a, atoi b)
     | _ \<Rightarrow> (lit ''127.0.0.1'', 6311))"

definition rshutdown_main :: "cstr list \<Rightarrow> world \<Rightarrow> (int, world) outcome" where
  "rshutdown_main argv =
     (let (server, portnum) = shutdown_target argv in
      proc None
        (chain (call (rconnect (Some server) portnum 0 0)) (\<lambda>(status, out).
         chain (upd_loc (\<lambda>_. out)) (\<lambda>_.
         chain (cBYE status) (\<lambda>_.
         case out of None \<Rightarrow> fault Uninit_use
         | Some sock \<Rightarrow>
             chain (call (rshutdown sock)) (\<lambda>status.
             chain (cBYE status) (\<lambda>_.
             done_with status))))))
        (\<lambda>status _ w. Done status w))"

section \<open>Lemmas\<close>

text \<open>
  \<open>tuned sock w0 t w\<close>: since \<open>w0\<close>, only the socket has changed; it is connected, and if \<open>t\<close> holds every
  read on it returns.
\<close>

definition tuned :: "int \<Rightarrow> world \<Rightarrow> bool \<Rightarrow> world \<Rightarrow> bool" where
  "tuned sock w0 t w \<longleftrightarrow> heap w = heap w0 \<and> next_id w = next_id w0 \<and>
     (\<forall>s. s \<noteq> sock \<longrightarrow> socks w s = socks w0 s) \<and> (\<exists>c. socks w sock = Some (Connected c)) \<and>
     (t \<longrightarrow> closes sock w)"

lemma runs_setsockopt:
  assumes t: "tuned sock w0 t w" and F: "\<And>w'. tuned sock w0 t w' \<Longrightarrow> Q (-1) w'"
    and P: "\<And>w'. tuned sock w0 (t \<or> opt = So_rcvtimeo) w' \<Longrightarrow> Q 0 w'"
  shows "runs blk (sys_setsockopt sock opt w) Q"
proof -
  obtain c where c: "socks w sock = Some (Connected c)" using t by (auto simp: tuned_def)
  let ?w = "w\<lparr>sockopts := tl (sockopts w)\<rparr>"
  have 1: "tuned sock w0 t ?w" using t by (simp add: tuned_def closes_def)
  have 2: "tuned sock w0 (t \<or> opt = So_rcvtimeo) (put_conn sock (c\<lparr>rcv_timeo := True\<rparr>) ?w)"
    using t c by (simp add: tuned_def closes_def)
  show ?thesis
    using F [OF 1] P 1 2 c by (auto simp: sys_setsockopt_def Let_def)
qed

lemma wp_set_timeout:
  assumes t: "tuned sock w0 t w" and B: "\<And>w'. tuned sock w0 t w' \<Longrightarrow> B (-1) l w'"
    and Q: "\<And>w' st'. tuned sock w0 (t \<or> opt = So_rcvtimeo \<and> 0 < sec) w' \<Longrightarrow> st' = 0 \<Longrightarrow> Q st' l w'"
    and st: "st = 0"
  shows "wp blk (set_timeout sock opt sec st) Q B R l w"
proof (cases "sec > 0")
  case True
  show ?thesis
    unfolding set_timeout_def if_P [OF True] wp_simps
    by (rule runs_setsockopt [OF t]) (use True in \<open>auto simp: wp_simps intro: B Q\<close>)
next
  case False
  then show ?thesis using Q [of w st] t st by (simp add: set_timeout_def wp_simps)
qed

text \<open>Every listener's connection ends, or has a timeout of its own.\<close>

definition answering :: "world \<Rightarrow> bool" where
  "answering w \<longleftrightarrow> (\<forall>addr port c. listeners w addr port = Some c \<longrightarrow> Eof \<in> set (inq c) \<or> rcv_timeo c)"

text \<open>What a call of \<open>rconnect\<close> may have changed: the state of the new descriptor, nothing else.\<close>

definition only_fd :: "int \<Rightarrow> world \<Rightarrow> world \<Rightarrow> bool" where
  "only_fd fd w w' \<longleftrightarrow> heap w' = heap w \<and> next_id w' = next_id w \<and> (\<forall>s. s \<noteq> fd \<longrightarrow> socks w' s = socks w s)"

lemma tuned_only: "tuned fd w0 t w' \<Longrightarrow> only_fd fd w w0 \<Longrightarrow> only_fd fd w w'"
  by (simp add: tuned_def only_fd_def)

lemma runs_greeting:
  assumes wf: "wf_heap w" and o: "only_fd fd w w'" and r: "blk \<or> closes fd w'"
    and Q: "\<And>st hdr nr w''. wf_heap w'' \<Longrightarrow> (closes fd w' \<longrightarrow> closes fd w'') \<Longrightarrow>
      heap w'' = heap w \<Longrightarrow> (\<forall>s. s \<noteq> fd \<longrightarrow> socks w'' s = socks w s) \<Longrightarrow> st < 0 \<or> st = 0 \<and> nr = Some 32 \<Longrightarrow> Q (st, hdr, nr) w''"
  shows "runs blk (get_buf_from_sock fd (Some 32) 32 w') Q"
proof -
  have wf': "wf_heap w'" using o wf by (simp add: only_fd_def wf_heap_def)
  have H: "wf_heap w''" "closes fd w' \<longrightarrow> closes fd w''" "heap w'' = heap w" "\<forall>s. s \<noteq> fd \<longrightarrow> socks w'' s = socks w s" if "since fd w' Map.empty w''" for w''
    using since_heap [OF wf' that] since_socks [OF that] since_wf [OF that] since_closes [OF that] o by (simp_all add: only_fd_def)
  from r have blk: "\<not> blk \<longrightarrow> closes fd w'" by blast
  show ?thesis
    by (rule runs_get_buf [OF since_start [OF wf'] blk]) (auto intro!: Q simp: H)
qed

lemma runs_rconnect:
  assumes wf: "wf_heap w" and s: "0 < portnum" "fds w = fd # r" "0 \<le> fd"
    and b: "blk \<or> answering w \<or> 0 < rcv_timeout"
    and F: "\<And>st w'. st < 0 \<Longrightarrow> heap w' = heap w \<Longrightarrow> (\<forall>s. s \<noteq> fd \<longrightarrow> socks w' s = socks w s) \<Longrightarrow> Q (st, None) w'"
    and P: "\<And>w'. wf_heap w' \<Longrightarrow> (answering w \<or> 0 < rcv_timeout \<longrightarrow> closes fd w') \<Longrightarrow>
      heap w' = heap w \<Longrightarrow> (\<forall>s. s \<noteq> fd \<longrightarrow> socks w' s = socks w s) \<Longrightarrow> Q (0, Some fd) w'"
  shows "runs blk (rconnect (Some s) portnum snd_timeout rcv_timeout w) Q"
proof -
  have neg: "\<not> portnum \<le> 0" "\<not> fd < 0" using s by simp_all
  obtain st addr where st: "inet_pton s 0 = (st, addr)" "\<not> st < 0"
    by (cases "parse_ipv4 s") (auto simp: inet_pton_def)
  define w1 where "w1 = w\<lparr>fds := r, socks := (socks w)(fd \<mapsto> Unconnected)\<rparr>"
  have w1: "sys_socket w = Done fd w1" using s by (simp add: sys_socket_def w1_def)
  show ?thesis
  proof (cases "listeners w addr (word_of_int portnum)")
    case None
    then have "sys_connect fd addr (word_of_int portnum) w1 = Done (-1) w1"
      by (simp add: sys_connect_def w1_def)
    moreover have "Q (-1, None) w1" by (rule F) (simp_all add: w1_def)
    ultimately show ?thesis
      by (simp add: rconnect_def wp_simps w1 neg st)
  next
    case (Some c)
    define w2 where "w2 = put_conn fd c w1"
    have conn: "sys_connect fd addr (word_of_int portnum) w1 = Done 0 w2"
      using Some by (simp add: sys_connect_def w1_def w2_def)
    have t: "tuned fd w2 (answering w) w2"
      using Some by (auto simp: tuned_def w2_def closes_def answering_def)
    have o: "only_fd fd w w2" by (simp add: only_fd_def w2_def w1_def)
    have F': "Q (st, None) w'" if "tuned fd w2 t w'" "st < 0" for st t w'
      using tuned_only [OF that(1) o] that(2) F by (simp add: only_fd_def)
    show ?thesis
      unfolding rconnect_def option.case wp_simps w1
      unfolding Let_def st(1) prod.case wp_simps conn
      apply (simp only: neg st(2) less_irrefl if_False)
      apply (rule runs_setsockopt [OF t])
       apply (simp add: F')
      apply (simp only: wp_simps less_irrefl if_False)
      apply (rule wp_set_timeout, assumption, simp add: F' wp_simps)
       apply (simp only: wp_simps)
       apply (rule wp_set_timeout, assumption, simp add: F' wp_simps)
        apply (rule runs_greeting [OF wf])
        apply (erule tuned_only [OF _ o])
         apply (use b in \<open>auto simp: tuned_def\<close>)[1]
        apply (auto simp: wp_simps tuned_def intro!: F P)
      done
  qed
qed

lemma put_conn_sockopts [simp]:
  "put_conn sock c w\<lparr>sockopts := x\<rparr> = put_conn sock c (w\<lparr>sockopts := x\<rparr>)"
  "sockopts (put_conn sock c w) = sockopts w"
  by (simp_all add: put_conn_def)

lemma exec_set_timeout:
  assumes "socks w sock = Some (Connected c)" "sockopts w = []"
  shows "set_timeout sock opt sec 0 (l, w) =
    Val 0 (l, put_conn sock (c\<lparr>rcv_timeo := rcv_timeo c \<or> opt = So_rcvtimeo \<and> 0 < sec\<rparr>) w)"
proof -
  have w: "w\<lparr>sockopts := []\<rparr> = w" using assms(2) by (cases w) simp
  have c: "c\<lparr>rcv_timeo := rcv_timeo c\<rparr> = c" by (cases c) simp
  show ?thesis
    using assms put_conn_same [OF assms(1)]
    by (auto simp: set_timeout_def exec_chain sys_setsockopt_def Let_def w c)
qed

lemma get_buf_greeting:
  assumes "socks w fd = Some (Connected c)" "0 \<le> fd" "32 \<le> length (avail (inq c))"
  shows "get_buf_from_sock fd (Some 32) 32 w =
    Done (0, take 32 (avail (inq c)), Some 32) (put_conn fd (c\<lparr>inq := drain 32 (inq c)\<rparr>) w)"
  using get_buf_loop_exact [OF assms(1) _ assms(3), of "[]" 32] assms
  by (simp add: get_buf_from_sock_def)

text \<open>A world with a server on 127.0.0.1:6311, and addresses that parse or do not.\<close>

definition listening_world :: "byte list \<Rightarrow> world" where
  "listening_world bs = (peer_world [])\<lparr>fds := [5],
     listeners := (\<lambda>addr port. if addr = 0x7f000001 \<and> port = 6311 then Some (peer_conn [bs] [Eof]) else None)\<rparr>"

lemma localhost [simp]:
  "parse_ipv4 (lit ''127.0.0.1'') = Some 0x7f000001" "parse_ipv4 (lit ''0.0.0.0'') = Some 0"
  "parse_ipv4 (lit ''localhost'') = None"
  by (simp_all add: parse_ipv4_def lit_def parse_octet_def digits_value_def is_digit_def)

text \<open>Connecting and shutting down in a healthy environment, computed.\<close>

lemma rconnect_greeting:
  assumes "fds w = fd # r" and "0 \<le> fd" and "0 < portnum" and "sockopts w = []"
    and "parse_ipv4 s = Some addr" and "listeners w addr (word_of_int portnum) = Some c"
    and "32 \<le> length (avail (inq c))"
  shows "rconnect (Some s) portnum snd_timeout rcv_timeout w =
    Done (if take 12 (avail (inq c)) = lit ''Rsrv0103QAP1'' then (0, Some fd) else (-1, None))
      (put_conn fd (c\<lparr>inq := drain 32 (inq c), rcv_timeo := rcv_timeo c \<or> 0 < rcv_timeout\<rparr>) (w\<lparr>fds := r\<rparr>))"
proof -
  define w1 where "w1 = put_conn fd c (w\<lparr>fds := r\<rparr>)"
  have w1: "socks w1 fd = Some (Connected c)" "sockopts w1 = []" using assms(4) by (simp_all add: w1_def)
  have o: "w1\<lparr>sockopts := []\<rparr> = w1" using w1(2) by (cases w1) simp
  have conn: "sys_connect fd addr (word_of_int portnum) (w\<lparr>fds := r, socks := (socks w)(fd \<mapsto> Unconnected)\<rparr>) = Done 0 w1"
    using assms(6) by (simp add: sys_connect_def w1_def put_conn_def)
  have c: "c\<lparr>rcv_timeo := b, rcv_timeo := b'\<rparr> = c\<lparr>rcv_timeo := b'\<rparr>" for b b' by simp
  have t: "take 12 (take 32 x) = take 12 x" for x :: "byte list" by simp
  let ?c = "c\<lparr>rcv_timeo := rcv_timeo c \<or> 0 < rcv_timeout\<rparr>"
  have ord: "c\<lparr>rcv_timeo := b, inq := q\<rparr> = c\<lparr>inq := q, rcv_timeo := b\<rparr>" for b q by (cases c) simp
  have len: "length server_id = 12" by (simp add: server_id_def)
  show ?thesis
    using assms(1-3,5,7)
    apply (simp add: rconnect_def proc_def exec_chain sys_socket_def inet_pton_def conn)
    apply (simp add: sys_setsockopt_def w1 o Let_def exec_chain)
    apply (simp add: exec_set_timeout [OF w1] w1 exec_chain)
    apply (simp add: exec_set_timeout [where c = ?c] w1 exec_chain)
    apply (simp add: get_buf_greeting [where c = ?c] len w1_def t exec_chain ord)
    apply (simp add: server_id_def)
    done
qed

lemma rshutdown_run:
  assumes "socks w sock = Some (Connected c)" and "0 \<le> sock" and "sndq c = []"
  shows "rshutdown sock w =
    (let c' = c\<lparr>outb := outb c @ request CMD_shutdown []\<rparr> in
     case read_event 32 (inq c) of
       None \<Rightarrow> if rcv_timeo c then Done (-3) (put_conn sock c' w) else Blocked
     | Some (Failed, q) \<Rightarrow> Done (-3) (put_conn sock (c'\<lparr>inq := q\<rparr>) w)
     | Some (Got [], q) \<Rightarrow> Done (-2) (put_conn sock (c'\<lparr>inq := q\<rparr>) w)
     | Some (Got bs, q) \<Rightarrow> Done 0 (w\<lparr>socks := (socks w)(sock := None)\<rparr>))"
proof -
  have h: "mk_hdr (Some (lit ''CMD_shutdown'')) 0 (Some fresh_phdr) =
    (0, Some \<lparr>cmd = CMD_shutdown, len = 0, msg_id = 0, res = 0\<rparr>)"
    by (simp add: mk_hdr_known)
  have u: "(w\<lparr>socks := f\<rparr>)\<lparr>socks := g\<rparr> = w\<lparr>socks := g\<rparr>" for f g :: "int \<Rightarrow> sock_state option" by simp
  show ?thesis
    using assms
    by (simp add: rshutdown_def h proc_def exec_chain sys_send_def size_of_int_def HDR_LEN_def request_def
        sys_read_def close_conn_def sys_close_def put_conn_def split: option.split read_result.split list.split prod.split)
qed

section \<open>Properties\<close>

text \<open>C15. \<open>rconnect\<close> has no undefined behaviour and touches nothing but the descriptor it opens; it stores
  that descriptor exactly on success, and blocks only without a receive timeout.\<close>

theorem rconnect_safe:
  assumes "wf_heap w"
  shows "runs (rcv_timeout \<le> 0 \<and> \<not> answering w) (rconnect server portnum snd_timeout rcv_timeout w)
    (\<lambda>(st, out) w'. heap w' = heap w \<and> (st < 0 \<and> out = None \<or> st = 0 \<and> 0 < portnum \<and> out = Some (hd (fds w))) \<and>
      (\<forall>s. fds w = [] \<or> s \<noteq> hd (fds w) \<longrightarrow> socks w' s = socks w s))"
proof (cases "\<exists>s fd r. server = Some s \<and> 0 < portnum \<and> fds w = fd # r \<and> 0 \<le> fd")
  case False
  then show ?thesis
    by (auto simp: rconnect_def wp_simps sys_socket_def split: option.splits list.splits)
next
  case True
  then obtain s fd r where s: "server = Some s" "0 < portnum" "fds w = fd # r" "0 \<le> fd" by blast
  show ?thesis unfolding s(1)
    by (rule runs_rconnect [OF assms s(2-4)]) (use s in auto)
qed

theorem rconnect_safe_witness:
  "\<exists>st out w'. rconnect (Some (lit ''127.0.0.1'')) 6311 0 5 (peer_world []) = Done (st, out) w' \<and> heap w' = Map.empty"
  using rconnect_safe [of "peer_world []" 5 "Some (lit ''127.0.0.1'')" 6311 0]
  by (auto dest!: runs_total)

text \<open>C16. Connected to a listener, \<open>rconnect\<close> reads exactly the 32 bytes of the greeting, accepts it by its
  first 12, has the receive timeout set if one was asked for, and when it refuses the greeting it leaves
  the new descriptor open.\<close>

theorem rconnect_greeted:
  assumes "fds w = fd # r" and "0 \<le> fd" and "0 < portnum" and "sockopts w = []"
    and "parse_ipv4 s = Some addr" and "listeners w addr (word_of_int portnum) = Some c"
    and "32 \<le> length (avail (inq c))"
  shows "rconnect (Some s) portnum snd_timeout rcv_timeout w =
    Done (if take 12 (avail (inq c)) = lit ''Rsrv0103QAP1'' then (0, Some fd) else (-1, None))
      (put_conn fd (c\<lparr>inq := drain 32 (inq c), rcv_timeo := rcv_timeo c \<or> 0 < rcv_timeout\<rparr>) (w\<lparr>fds := r\<rparr>))"
  by (rule rconnect_greeting [OF assms])

theorem rconnect_greeted_witness:
  "fst (case rconnect (Some (lit ''127.0.0.1'')) 6311 0 0 (listening_world (lit ''Rsrv0103QAP1'' @ replicate 20 45))
     of Done r w \<Rightarrow> (r, w)) = (0, Some 5)"
  using rconnect_greeted [of "listening_world (lit ''Rsrv0103QAP1'' @ replicate 20 45)" 5 "[]" 6311
      "lit ''127.0.0.1''" "0x7f000001" "peer_conn [lit ''Rsrv0103QAP1'' @ replicate 20 45] [Eof]" 0 0]
  by (simp add: listening_world_def peer_world_def peer_conn_def)

text \<open>A server address that does not parse is taken for \<open>0.0.0.0\<close>, and port numbers are cut to 16 bits.\<close>

theorem rconnect_sloppy:
  "(parse_ipv4 s = None \<longrightarrow> rconnect (Some s) portnum = rconnect (Some (lit ''0.0.0.0'')) portnum) \<and>
   (0 < portnum \<longrightarrow> rconnect server (portnum + 65536) = rconnect server portnum)"
proof (intro conjI impI)
  have c: "cBYE 0 = done_with ()" "cBYE 1 = done_with ()"
    by (simp_all add: cBYE_def bye_when_def)
  show "rconnect (Some s) portnum = rconnect (Some (lit ''0.0.0.0'')) portnum" if "parse_ipv4 s = None"
    using that by (intro ext) (simp add: rconnect_def inet_pton_def c)
  have p: "(word_of_int (portnum + 65536) :: u16) = word_of_int portnum"
    by (simp add: word_of_int_eq_iff take_bit_eq_mod)
  show "rconnect server (portnum + 65536) = rconnect server portnum" if "0 < portnum"
  proof (intro ext)
    fix snd_timeout rcv_timeout w
    have n: "\<not> portnum + 65536 \<le> 0" "\<not> portnum \<le> 0" using that by simp_all
    show "rconnect server (portnum + 65536) snd_timeout rcv_timeout w = rconnect server portnum snd_timeout rcv_timeout w"
      unfolding rconnect_def p by (simp only: n)
  qed
qed

theorem rconnect_sloppy_witness:
  "rconnect (Some (lit ''localhost'')) 71847 = rconnect (Some (lit ''0.0.0.0'')) 6311"
  using rconnect_sloppy [of "lit ''localhost''" 71847 "Some (lit ''0.0.0.0'')"]
    rconnect_sloppy [of "lit ''localhost''" 6311 "Some (lit ''0.0.0.0'')"] by simp

text \<open>\<open>rshutdown\<close> on a healthy connection, completely: the shutdown packet goes out, any answer closes the
  descriptor, while the end of the stream and an error are reported as -2 and -3 with the descriptor open.\<close>

theorem rshutdown_outcomes:
  assumes "socks w sock = Some (Connected c)" and "0 \<le> sock" and "sndq c = []"
  shows "rshutdown sock w =
    (let c' = c\<lparr>outb := outb c @ request CMD_shutdown []\<rparr> in
     case read_event 32 (inq c) of
       None \<Rightarrow> if rcv_timeo c then Done (-3) (put_conn sock c' w) else Blocked
     | Some (Failed, q) \<Rightarrow> Done (-3) (put_conn sock (c'\<lparr>inq := q\<rparr>) w)
     | Some (Got [], q) \<Rightarrow> Done (-2) (put_conn sock (c'\<lparr>inq := q\<rparr>) w)
     | Some (Got bs, q) \<Rightarrow> Done 0 (w\<lparr>socks := (socks w)(sock := None)\<rparr>))"
  by (rule rshutdown_run [OF assms])

theorem rshutdown_outcomes_witness:
  "rshutdown 3 (peer_world []) =
     Done (-2) (put_conn 3 ((peer_conn [] [Eof])\<lparr>outb := request CMD_shutdown []\<rparr>) (peer_world []))"
  using rshutdown_outcomes [of "peer_world []" 3 "peer_conn [] [Eof]"]
  by (simp add: peer_world_def peer_conn_def)

text \<open>\<open>rshutdown\<close> is safe on any descriptor and touches no other; 0 means the descriptor is closed.\<close>

theorem rshutdown_safe:
  assumes "wf_heap w"
  shows "runs (\<not> closes sock w) (rshutdown sock w) (\<lambda>st w'.
    heap w' = heap w \<and> (\<forall>s. s \<noteq> sock \<longrightarrow> socks w' s = socks w s) \<and>
    (st = 0 \<and> socks w' sock = None \<or> st = -1 \<or> st = -2 \<or> st = -3))"
proof -
  have h: "mk_hdr (Some (lit ''CMD_shutdown'')) 0 (Some fresh_phdr) =
    (0, Some \<lparr>cmd = CMD_shutdown, len = 0, msg_id = 0, res = 0\<rparr>)"
    by (simp add: mk_hdr_known)
  have same: "heap w' = heap w" "\<forall>s. s \<noteq> sock \<longrightarrow> socks w' s = socks w s" if "since sock w Map.empty w'" for w'
    using since_heap [OF assms that] since_socks [OF that] by simp_all
  show ?thesis
    unfolding rshutdown_def wp_simps h Let_def prod.case option.sel
    apply (simp only: less_irrefl if_False)
    apply (rule runs_sys_send [OF since_start [OF assms]])
    apply (simp add: wp_simps same)
    apply (rule impI, rule runs_sys_read, assumption, simp)
    apply (auto simp: wp_simps same close_conn_def sys_close_def)
    done
qed

theorem rshutdown_safe_witness:
  "\<exists>st w'. rshutdown 3 (peer_world []) = Done st w' \<and> heap w' = Map.empty"
  using rshutdown_safe [of "peer_world []" 3]
  by (auto dest!: runs_total)

text \<open>C17. The program rshutdown, connected to an Rserve, reads the 32 bytes of its greeting, has then sent one packet,
  \<open>CMD_shutdown\<close> without contents, and reads once: an answer makes it exit with 0 and the connection closed, the end of
  the stream with -2 and an error with -3, the connection left open. It waits for ever on a server that keeps silent.\<close>

theorem rshutdown_main_session:
  assumes "shutdown_target argv = (s, portnum)" and "fds w = fd # r" and "0 \<le> fd" and "0 < portnum" and "sockopts w = []"
    and "parse_ipv4 s = Some addr" and "listeners w addr (word_of_int portnum) = Some c" and "sndq c = []"
    and "32 \<le> length (avail (inq c))" and "take 12 (avail (inq c)) = lit ''Rsrv0103QAP1''"
  shows "rshutdown_main argv w =
    (let w1 = w\<lparr>fds := r\<rparr>;
         c' = c\<lparr>inq := drain 32 (inq c), outb := outb c @ request CMD_shutdown []\<rparr> in
     case read_event 32 (drain 32 (inq c)) of
       None \<Rightarrow> if rcv_timeo c then Done (-3) (put_conn fd c' w1) else Blocked
     | Some (Failed, q) \<Rightarrow> Done (-3) (put_conn fd (c'\<lparr>inq := q\<rparr>) w1)
     | Some (Got [], q) \<Rightarrow> Done (-2) (put_conn fd (c'\<lparr>inq := q\<rparr>) w1)
     | Some (Got bs, q) \<Rightarrow> Done 0 (w1\<lparr>socks := (socks w)(fd := None)\<rparr>))"
proof -
  let ?c = "c\<lparr>inq := drain 32 (inq c)\<rparr>"
  let ?w = "put_conn fd ?c (w\<lparr>fds := r\<rparr>)"
  have same: "c\<lparr>inq := x, rcv_timeo := rcv_timeo c\<rparr> = c\<lparr>inq := x\<rparr>" for x by (cases c) simp
  have "rconnect (Some s) portnum 0 0 w = Done (0, Some fd) ?w"
    using rconnect_greeting [OF assms(2-7,9), of 0 0] assms(10) by (simp add: same)
  moreover have "rshutdown fd ?w = (case read_event 32 (drain 32 (inq c)) of
       None \<Rightarrow> if rcv_timeo c then Done (-3) (put_conn fd (?c\<lparr>outb := outb c @ request CMD_shutdown []\<rparr>) ?w) else Blocked
     | Some (Failed, q) \<Rightarrow> Done (-3) (put_conn fd (?c\<lparr>outb := outb c @ request CMD_shutdown [], inq := q\<rparr>) ?w)
     | Some (Got [], q) \<Rightarrow> Done (-2) (put_conn fd (?c\<lparr>outb := outb c @ request CMD_shutdown [], inq := q\<rparr>) ?w)
     | Some (Got bs, q) \<Rightarrow> Done 0 (?w\<lparr>socks := (socks ?w)(fd := None)\<rparr>))"
    using rshutdown_run [of ?w fd ?c] assms(3,8) by (simp add: Let_def)
  ultimately show ?thesis
    by (simp add: rshutdown_main_def assms(1) proc_def exec_chain Let_def put_conn_def
        split: option.split read_result.split list.split prod.split)
qed

theorem rshutdown_main_session_witness:
  "(let g = lit ''Rsrv0103QAP1'' @ replicate 20 45; w = listening_world g in
    rshutdown_main [] w = Done (-2) (put_conn 5 ((peer_conn [] [Eof])\<lparr>outb := request CMD_shutdown []\<rparr>) (w\<lparr>fds := []\<rparr>))) \<and>
   (let g = lit ''Rsrv0103QAP1'' @ replicate 36 45; w = listening_world g in
    rshutdown_main [] w = Done 0 (w\<lparr>fds := [], socks := (socks w)(5 := None)\<rparr>))"
proof -
  let ?g = "\<lambda>n. lit ''Rsrv0103QAP1'' @ replicate n 45"
  have t: "shutdown_target [] = (lit ''127.0.0.1'', 6311)" by (simp add: shutdown_target_def)
  have w: "fds (listening_world g) = [5]" "sockopts (listening_world g) = []"
    "listeners (listening_world g) 0x7f000001 (word_of_int 6311) = Some (peer_conn [g] [Eof])" for g
    by (simp_all add: listening_world_def peer_world_def)
  have c: "sndq (peer_conn [g] [Eof]) = []" "inq (peer_conn [g] [Eof]) = [Data g, Eof]" "outb (peer_conn [g] [Eof]) = []" for g
    by (simp_all add: peer_conn_def)
  have o: "(peer_conn [g] [Eof])\<lparr>inq := [Eof], outb := x\<rparr> = (peer_conn [] [Eof])\<lparr>outb := x\<rparr>"
    "(peer_conn [] [Eof])\<lparr>outb := x, inq := [Eof]\<rparr> = (peer_conn [] [Eof])\<lparr>outb := x\<rparr>" for g x
    by (simp_all add: peer_conn_def)
  note run = rshutdown_main_session [OF t w(1) _ _ w(2) localhost(1) w(3) c(1), unfolded c]
  from run [of "?g 20"] run [of "?g 36"] show ?thesis
    by (simp add: drain_Data Let_def o c split: list.split)
qed

end
