(* ===== verification/Scalars.thy ===== *)
theory Scalars
  imports Segment
begin

text \<open>
  \<open>get_F8\<close> and \<open>get_I4\<close> (src/get_F8.c, src/get_I4.c): one double or one integer. Unlike \<open>exec_str\<close> they
  read the two words before the content, and the content, with one bare \<open>read\<close> each, so what they
  deliver depends on how the response is cut into segments. The assertion \<open>whole\<close> (theory
  Segment) says that it came in one piece.
\<close>

section \<open>get_F8, get_I4\<close>

text \<open>What is stored through \<open>ptr_dval\<close>: the bytes the last read delivered, if any.\<close>

record scalar_vars = param_vars +
  sv_x :: "byte list option"

text \<open>Lines 32 to 53, on the response header: the two files differ in the expression type and in the
  size of an element.\<close>

definition read_scalar :: "int \<Rightarrow> u32 \<Rightarrow> nat \<Rightarrow> phdr \<Rightarrow> (unit, 'r, scalar_vars, world) cmd" where
  "read_scalar sock xt width ph =
     (let num_left_to_read = sint (len ph) in
      chain (read_words sock) (\<lambda>hdr.
      chain (bye_when (u32_at hdr 0 AND 0xFF \<noteq> DT_SEXP) (-1)) (\<lambda>_.
      chain (bye_when (u32_at hdr 1 AND 0xFF \<noteq> xt) (-1)) (\<lambda>_.
      let ln = drop_bit 8 (u32_at hdr 1) in
      chain (int_sub num_left_to_read 8) (\<lambda>num_left_to_read.
      chain (bye_when (num_left_to_read \<noteq> to_int ln) (-1)) (\<lambda>_.
      let n = to_int (size_of_int num_left_to_read div of_nat width) in
      chain (bye_when (n \<noteq> 1) (-1)) (\<lambda>_.
      chain (call (sys_read sock width)) (\<lambda>(nr, bs).
      chain (upd_loc (\<lambda>l. l\<lparr>sv_x := if bs = [] then None else Some bs\<rparr>)) (\<lambda>_.
      chain (bye_when (nr = 0) (-2)) (\<lambda>_.
      bye_when (nr < 0) (-3)))))))))))"

definition get_scalar ::
    "u32 \<Rightarrow> nat \<Rightarrow> int \<Rightarrow> cstr option \<Rightarrow> world \<Rightarrow> (int \<times> byte list option, world) outcome" where
  "get_scalar xt width sock name = proc \<lparr>ev_param1 = Null, sv_x = None\<rparr>
     (chain (prepare_param name) (\<lambda>len_param1.
      chain (send_request sock (lit ''CMD_eval'') len_param1) (\<lambda>ph.
      chain (call (read_hdr sock ph)) (\<lambda>(status, ph).
      chain (cBYE status) (\<lambda>_.
      chain (read_scalar sock xt width ph) (\<lambda>_.
      done_with status))))))
     (\<lambda>status l w. obind (free_all [ev_param1 l] w) (\<lambda>_ w'. Done (status, sv_x l) w'))"

definition get_F8 :: "int \<Rightarrow> cstr option \<Rightarrow> world \<Rightarrow> (int \<times> byte list option, world) outcome" where
  "get_F8 = get_scalar XT_ARRAY_DOUBLE 8"

definition get_I4 :: "int \<Rightarrow> cstr option \<Rightarrow> world \<Rightarrow> (int \<times> byte list option, world) outcome" where
  "get_I4 = get_scalar XT_ARRAY_INT 4"

section \<open>Rules\<close>

lemma width_one: "0 < k \<Longrightarrow> k < 2 ^ 24 \<Longrightarrow> to_int (size_of_int (int k) div of_nat k) = 1"
proof -
  assume k: "0 < k" "k < 2 ^ 24"
  then have "unat (of_nat k :: size_t) = k" by (intro unat_of_nat_size) simp
  then have "unat ((of_nat k :: size_t) div of_nat k) = 1" using k by (simp add: unat_div)
  then have "(of_nat k :: size_t) div of_nat k = 1" by (simp add: word_unat_eq_iff)
  then show ?thesis by (simp add: to_int_def)
qed

text \<open>The words are there and fit: what the last read delivers is stored, however much it is.\<close>

lemma read_scalar_rule:
  assumes h: "whole sock w0 m bs q out w" and bs: "bs \<noteq> []"
    and ph: "len ph = of_nat (width + 8)" and wd: "0 < width" "width < 2 ^ 24" and xt: "unat xt < 256"
    and F: "\<And>w'. whole sock w0 m (drop 8 bs) q out w' \<Longrightarrow> length bs < 8 \<Longrightarrow> B (-1) l w'"
    and E: "8 \<le> length bs \<Longrightarrow> take 8 bs = sexp_words xt width"
    and ne: "8 \<le> length bs \<Longrightarrow> 8 < length bs"
    and Q: "\<And>w' l' bs'. whole sock w0 m bs' q out w' \<Longrightarrow> bs' = drop (8 + width) bs \<Longrightarrow> 8 < length bs \<Longrightarrow>
      l' = l\<lparr>sv_x := Some (take width (drop 8 bs))\<rparr> \<Longrightarrow> Q () l' w'"
  shows "wp blk (read_scalar sock xt width ph) Q B R l w"
proof -
  have "sint (len ph) = int (width + 8)" unfolding ph using wd by (intro sint_of_nat_u32) simp
  then have n: "sint (len ph) = int width + 8" by simp
  have wd': "width < 16777216" "width \<le> 2147483647" using wd by simp_all
  have tw: "to_int (of_nat width :: u32) = int width" using wd by (intro to_int_of_nat) simp_all
  show ?thesis
    unfolding read_scalar_def read_words_def Let_def wp_simps n
    apply (rule runs_sys_read_whole [OF h _ bs], simp)
    apply (cases "length bs < 8")
     apply (simp add: wp_simps F bs)
    apply (simp add: wp_simps E xt wd wd' tw width_one [simplified])
    apply (rule runs_sys_read_whole, assumption, use wd in simp, use ne in simp)
    apply (use wd ne in \<open>auto simp: wp_simps min_def intro!: Q simp: add.commute\<close>)
    done
qed


lemma runs_get_scalar:
  assumes h: "whole sock w0 m (enc_phdr ph @ bs) q out w" and bs: "bs \<noteq> []"
    and sock: "0 \<le> sock" and fits: "fits_packet (length s)"
    and ph: "len ph = of_nat (width + 8)" and wd: "0 < width" "width < 2 ^ 24" and xt: "unat xt < 256"
    and E: "8 \<le> length bs \<Longrightarrow> take 8 bs = sexp_words xt width" and ne: "8 \<le> length bs \<Longrightarrow> 8 < length bs"
    and F: "\<And>w'. whole sock w0 m (drop 8 bs) q (out @ eval_request True s) w' \<Longrightarrow> length bs < 8 \<Longrightarrow> Q (-1, None) w'"
    and P: "\<And>w' v bs'. whole sock w0 m bs' q (out @ eval_request True s) w' \<Longrightarrow> bs' = drop (8 + width) bs \<Longrightarrow>
      8 < length bs \<Longrightarrow> v = take width (drop 8 bs) \<Longrightarrow> Q (0, Some v) w'"
  shows "runs blk (get_scalar xt width sock (Some s) w) Q"
  unfolding get_scalar_def wp_simps
  apply (rule whole_channel.request_rule [OF h, where code = CMD_eval])
       apply (simp_all add: fits fits_packet_cstr)
  apply (rule runs_read_hdr_whole, assumption, rule sock)
  apply (simp add: wp_simps)
  apply (rule read_scalar_rule, assumption, rule bs, rule ph, rule wd, rule wd, rule xt)
     apply (simp_all add: wp_simps E ne F eval_request_def)
  apply (erule P [unfolded eval_request_def, simplified], simp_all)
  done

section \<open>Properties\<close>

text \<open>A response that comes in one segment: \<open>get_F8\<close> delivers the double's eight bytes, consumes exactly
  the response and frees everything.\<close>

theorem get_F8_answers:
  assumes "arrives sock (sexp_reply XT_ARRAY_DOUBLE (le64 v) @ rest) q w" and "fits_packet (length name)"
  shows "\<exists>w'. get_F8 sock (Some name) w = Done (0, Some (le64 v)) w' \<and>
    served sock (eval_request True name) (rest @ avail q) w w'"
proof (rule runs_Done_ex)
  have wf: "wf_heap w" "0 \<le> sock" using assms by (simp_all add: arrives_def)
  have h: "whole sock w Map.empty (enc_phdr \<lparr>cmd = RESP_OK, len = of_nat (8 + 8), msg_id = 0, res = 0\<rparr> @
    sexp_words XT_ARRAY_DOUBLE 8 @ le64 v @ rest) q (sent sock w) w"
    using assms(1) by (simp add: arrives_def sexp_reply_words)
  show "runs False (get_F8 sock (Some name) w) (\<lambda>r w'. r = (0, Some (le64 v)) \<and>
    served sock (eval_request True name) (rest @ avail q) w w')"
    unfolding get_F8_def
    by (rule runs_get_scalar [OF h]) (use assms wf in \<open>auto simp: XT_ARRAY_DOUBLE_def intro: served_whole\<close>)
qed

theorem get_F8_answers_witness:
  "\<exists>w'. get_F8 3 (Some (lit ''pi'')) (peer_world [sexp_reply XT_ARRAY_DOUBLE (le64 0x400921FB54442D18)]) =
     Done (0, Some (le64 0x400921FB54442D18)) w'"
  using get_F8_answers [of 3 "0x400921FB54442D18" "[]" "[Eof]"
      "peer_world [sexp_reply XT_ARRAY_DOUBLE (le64 0x400921FB54442D18)]" "lit ''pi''"]
  by (auto simp: fits_packet_def)

text \<open>The same for \<open>get_I4\<close> and the four bytes of an integer.\<close>

theorem get_I4_answers:
  assumes "arrives sock (sexp_reply XT_ARRAY_INT (le32 v) @ rest) q w" and "fits_packet (length name)"
  shows "\<exists>w'. get_I4 sock (Some name) w = Done (0, Some (le32 v)) w' \<and>
    served sock (eval_request True name) (rest @ avail q) w w'"
proof (rule runs_Done_ex)
  have wf: "wf_heap w" "0 \<le> sock" using assms by (simp_all add: arrives_def)
  have h: "whole sock w Map.empty (enc_phdr \<lparr>cmd = RESP_OK, len = of_nat (4 + 8), msg_id = 0, res = 0\<rparr> @
    sexp_words XT_ARRAY_INT 4 @ le32 v @ rest) q (sent sock w) w"
    using assms(1) by (simp add: arrives_def sexp_reply_words)
  show "runs False (get_I4 sock (Some name) w) (\<lambda>r w'. r = (0, Some (le32 v)) \<and>
    served sock (eval_request True name) (rest @ avail q) w w')"
    unfolding get_I4_def
    by (rule runs_get_scalar [OF h]) (use assms wf in \<open>auto simp: XT_ARRAY_INT_def intro: served_whole\<close>)
qed

theorem get_I4_answers_witness:
  "\<exists>w'. get_I4 3 (Some (lit ''n'')) (peer_world [sexp_reply XT_ARRAY_INT (le32 7)]) = Done (0, Some (le32 7)) w'"
  using get_I4_answers [of 3 7 "[]" "[Eof]" "peer_world [sexp_reply XT_ARRAY_INT (le32 7)]" "lit ''n''"]
  by (auto simp: fits_packet_def)

text \<open>C28. A response cut inside the two words, or inside the value, breaks \<open>get_F8\<close>: it fails with -1, or it
  returns 0 with only the bytes before the cut stored.\<close>

theorem get_F8_fragmented:
  assumes "arrives sock (take k (sexp_reply XT_ARRAY_DOUBLE (le64 v))) q w" and "fits_packet (length name)"
    and "16 < k" and "k < 32" and "k \<noteq> 24"
  shows "\<exists>w'. get_F8 sock (Some name) w =
    Done (if k < 24 then (-1, None) else (0, Some (take (k - 24) (le64 v)))) w'"
proof -
  have wf: "wf_heap w" "0 \<le> sock" using assms by (simp_all add: arrives_def)
  let ?bs = "take (k - 16) (sexp_words XT_ARRAY_DOUBLE 8 @ le64 v)"
  have h: "whole sock w Map.empty (enc_phdr \<lparr>cmd = RESP_OK, len = of_nat (8 + 8), msg_id = 0, res = 0\<rparr> @ ?bs) q (sent sock w) w"
    using assms(1,3) by (simp add: arrives_def sexp_reply_words)
  have bs: "?bs \<noteq> []" "length ?bs = k - 16" using assms by simp_all
  have "runs False (get_F8 sock (Some name) w) (\<lambda>r w'. r = (if k < 24 then (-1, None) else (0, Some (take (k - 24) (le64 v)))))"
    unfolding get_F8_def
    by (rule runs_get_scalar [OF h bs(1)]) (use assms wf bs in \<open>auto simp: XT_ARRAY_DOUBLE_def\<close>)
  then show ?thesis by (auto dest!: runs_total)
qed

theorem get_F8_fragmented_witness:
  "\<exists>w'. get_F8 3 (Some (lit ''pi'')) (peer_world [take 20 (sexp_reply XT_ARRAY_DOUBLE (le64 1))]) = Done (-1, None) w'"
  using get_F8_fragmented [of 3 20 1 "[Eof]" "peer_world [take 20 (sexp_reply XT_ARRAY_DOUBLE (le64 1))]" "lit ''pi''"]
  by (auto simp: fits_packet_def sexp_reply_words)

text \<open>A response header with a length near the least integer makes \<open>get_F8\<close> overflow a signed
  subtraction.\<close>

theorem get_F8_length_overflow:
  assumes "arrives sock (enc_phdr ph @ sexp_words XT_ARRAY_DOUBLE n @ rest) q w" and "fits_packet (length name)"
    and "sint (len ph) < int_min + 8"
  shows "get_F8 sock (Some name) w = Undef Signed_overflow"
proof -
  have wf: "0 \<le> sock" using assms by (simp add: arrives_def)
  have h: "whole sock w Map.empty (enc_phdr ph @ sexp_words XT_ARRAY_DOUBLE n @ rest) q (sent sock w) w"
    using assms(1) by (simp add: arrives_def)
  let ?l = "\<lparr>ev_param1 = Null, sv_x = None\<rparr>"
  obtain w' where w': "whole sock w Map.empty (sexp_words XT_ARRAY_DOUBLE n @ rest) q (sent sock w @ eval_request True name) w'"
    and run: "\<And>k :: int \<times> phdr \<Rightarrow> (int, int \<times> byte list option, scalar_vars, world) cmd. chain (prepare_param (Some name)) (\<lambda>n. chain (send_request sock (lit ''CMD_eval'') n) (\<lambda>ph0.
       chain (call (read_hdr sock ph0)) k)) (?l, w) = k (0, ph) (?l, w')"
    by (rule request_exec [OF h wf _ assms(2), of ?l]) auto
  have "runs False (sys_read sock 8 w') (\<lambda>r w''. r = (8, sexp_words XT_ARRAY_DOUBLE n))"
    by (rule runs_sys_read_whole [OF w']) simp_all
  then obtain w'' where "sys_read sock 8 w' = Done (8, sexp_words XT_ARRAY_DOUBLE n) w''"
    by (auto dest!: runs_total)
  then show ?thesis
    using assms(3) unfolding get_F8_def get_scalar_def proc_def run
    by (simp add: exec_chain read_scalar_def read_words_def Let_def
        XT_ARRAY_DOUBLE_def int_sub_def)
qed

theorem get_F8_length_overflow_witness:
  "get_F8 3 (Some (lit ''pi''))
     (peer_world [enc_phdr \<lparr>cmd = RESP_OK, len = 0x80000000, msg_id = 0, res = 0\<rparr> @ sexp_words XT_ARRAY_DOUBLE 8]) =
   Undef Signed_overflow"
  using get_F8_length_overflow [of 3 "\<lparr>cmd = RESP_OK, len = 0x80000000, msg_id = 0, res = 0\<rparr>" 8 "[]" "[Eof]"
      "peer_world [enc_phdr \<lparr>cmd = RESP_OK, len = 0x80000000, msg_id = 0, res = 0\<rparr> @ sexp_words XT_ARRAY_DOUBLE 8]" "lit ''pi''"]
  by (simp add: fits_packet_def)

end
