(* ===== verification/Arrays.thy ===== *)
theory Arrays
  imports Prelude
begin

text \<open>
  Arrays of fixed-width elements in byte buffers: the view of the caller on the blocks that \<open>get_vec\<close>
  and \<open>get_named_vec_F8\<close> fill and \<open>set_vec\<close> sends. An element type is an interface, \<open>element\<close>, with one
  instance per width the client knows.
\<close>

definition array :: "('a \<Rightarrow> byte list) \<Rightarrow> 'a list \<Rightarrow> byte list" where
  "array enc vs = concat (map enc vs)"

fun chop :: "nat \<Rightarrow> byte list \<Rightarrow> byte list list" where
  "chop w bs = (if w = 0 \<or> bs = [] then [] else take w bs # chop w (drop w bs))"

declare chop.simps [simp del]

definition elements :: "nat \<Rightarrow> (byte list \<Rightarrow> 'a) \<Rightarrow> byte list \<Rightarrow> 'a list" where
  "elements w dec bs = map dec (chop w bs)"

lemma array_simps [simp]: "array enc [] = []" "array enc (v # vs) = enc v @ array enc vs"
  "array enc (us @ vs) = array enc us @ array enc vs"
  by (simp_all add: array_def)

locale element =
  fixes width :: nat
    and enc :: "'a \<Rightarrow> byte list"
    and dec :: "byte list \<Rightarrow> 'a"
  assumes length_enc: "length (enc v) = width"
    and dec_enc: "dec (enc v) = v"
    and width_pos: "0 < width"
begin

lemma length_array: "length (array enc vs) = width * length vs"
  by (induction vs) (simp_all add: length_enc)

lemma elements_array: "elements width dec (array enc vs) = vs"
proof (induction vs)
  case Nil
  show ?case by (simp add: elements_def chop.simps)
next
  case (Cons v vs)
  have "enc v \<noteq> []" using length_enc [of v] width_pos by auto
  then show ?case
    using Cons width_pos by (simp add: elements_def chop.simps [of _ "enc v @ _"] length_enc dec_enc)
qed

lemma array_inject: "array enc us = array enc vs \<longleftrightarrow> us = vs"
  by (metis elements_array)

end

interpretation double_elt: element 8 le64 le_dec
  by unfold_locales (simp_all add: le64_def)

lemma array_le64_elements:
  "length bs = 8 * n \<Longrightarrow> array le64 (elements 8 (le_dec :: byte list \<Rightarrow> 64 word) bs) = bs \<and>
     length (elements 8 (le_dec :: byte list \<Rightarrow> 64 word) bs) = n"
proof (induction n arbitrary: bs)
  case 0
  then show ?case by (simp add: elements_def chop.simps)
next
  case (Suc n)
  then have bs: "bs \<noteq> []" "length (take 8 bs) = 8" "length (drop 8 bs) = 8 * n" by auto
  have "le64 (le_dec (take 8 bs)) = take 8 bs"
    using le_enc_dec [where 'a = 64, of "take 8 bs"] bs(2) by (simp add: le64_def)
  then show ?case
    using Suc.IH [OF bs(3)] bs(1) by (simp add: elements_def chop.simps [of _ bs])
qed

interpretation int_elt: element 4 le32 le_dec
  by unfold_locales (simp_all add: le32_def)

interpretation byte_elt: element 1 "\<lambda>b. [b]" "\<lambda>bs. hd bs :: byte"
  by unfold_locales simp_all

lemma array_bytes [simp]: "array (\<lambda>b. [b]) bs = bs"
  by (induction bs) simp_all

section \<open>Strings\<close>

text \<open>The reader's view of a string array: the NUL-terminated strings, without an unterminated tail.\<close>

fun nul_strings :: "byte list \<Rightarrow> byte list \<Rightarrow> cstr list" where
  "nul_strings acc [] = []"
| "nul_strings acc (b # bs) = (if b = 0 then acc # nul_strings [] bs else nul_strings (acc @ [b]) bs)"

lemma nul_strings_string: "no_nul s \<Longrightarrow> nul_strings acc (s @ 0 # bs) = (acc @ s) # nul_strings [] bs"
  by (induction s arbitrary: acc) auto

lemma nul_strings_tail: "b \<noteq> 0 \<Longrightarrow> nul_strings acc (replicate k b) = []"
  by (induction k arbitrary: acc) auto

text \<open>Strings one behind the other, each with its NUL.\<close>

definition packed :: "cstr list \<Rightarrow> byte list" where
  "packed ss = concat (map (\<lambda>s. s @ [0]) ss)"

lemma packed_simps [simp]: "packed [] = []" "packed (s # ss) = s @ 0 # packed ss" "packed (ss @ ts) = packed ss @ packed ts"
  by (simp_all add: packed_def)

lemma nul_strings_packed: "list_all no_nul ss \<Longrightarrow> nul_strings [] (packed ss @ bs) = ss @ nul_strings [] bs"
  by (induction ss) (simp_all add: nul_strings_string)

end
