(* ===== verification/Get_Vec.thy ===== *)
theory Get_Vec
  imports Segment Arrays
begin

text \<open>
  \<open>get_vec\<close> of src/get_vec.c: a whole vector of doubles, integers or logicals in a block the caller
  frees. The local \<open>data\<close> is declared without a value far down the body, so it is indeterminate
  (\<open>Indet\<close>) whenever BYE is reached from above its declaration, and BYE frees it.
\<close>

section \<open>The function\<close>

text \<open>\<open>gv_out\<close> is what has been stored through \<open>ptr_data\<close> and \<open>ptr_n\<close>, if anything.\<close>

record vec_vars = param_vars +
  gv_data :: ptr
  gv_out :: "(ptr \<times> int) option"

text \<open>Lines 29 to 40 and 67 to 78: the width and the expression type of an element type.\<close>

definition elem_width :: "cstr \<Rightarrow> u32 option" where
  "elem_width qtype =
     (if qtype = lit ''F8'' then Some 8
      else if qtype = lit ''I4'' then Some 4
      else if qtype = lit ''I1'' then Some 1
      else None)"

definition elem_xt :: "cstr \<Rightarrow> u32 option" where
  "elem_xt qtype =
     (if qtype = lit ''F8'' then Some XT_ARRAY_DOUBLE
      else if qtype = lit ''I4'' then Some XT_ARRAY_INT
      else if qtype = lit ''I1'' then Some XT_ARRAY_BOOL
      else None)"

text \<open>Lines 57 to 89: the two words, the checks, and the element count of a logical vector, which is read
  and dropped. The value is \<open>num_left_to_read\<close>.\<close>

definition read_vec_head :: "int \<Rightarrow> cstr \<Rightarrow> int \<Rightarrow> (int, 'r, vec_vars, world) cmd" where
  "read_vec_head sock qtype num_left_to_read =
     chain (read_words sock) (\<lambda>hdr.
     chain (bye_when (u32_at hdr 0 AND 0xFF \<noteq> DT_SEXP) (-1)) (\<lambda>_.
     chain (bye_when (Some (u32_at hdr 1 AND 0xFF) \<noteq> elem_xt qtype) (-1)) (\<lambda>_.
     let ln = drop_bit 8 (u32_at hdr 1) in
     chain (int_sub num_left_to_read 8) (\<lambda>num_left_to_read.
     chain (bye_when (num_left_to_read \<noteq> to_int ln) (-1)) (\<lambda>_.
     if qtype = lit ''I1''
     then chain (call (get_buf_from_sock sock (Some 4) 4)) (\<lambda>(status, itmp, num_read).
          chain (cBYE status) (\<lambda>_.
          done_with (to_int (size_of_int num_left_to_read - 4))))
     else done_with num_left_to_read)))))"

text \<open>Lines 90 to 100: the elements. The division and the product are of type \<open>unsigned int\<close>.\<close>

definition read_vec_data :: "int \<Rightarrow> u32 \<Rightarrow> int \<Rightarrow> (int, 'r, vec_vars, world) cmd" where
  "read_vec_data sock width num_left_to_read =
     (let n = to_int ((word_of_int num_left_to_read :: u32) div width);
          sz = to_int ((word_of_int n :: u32) * width)
      in
      chain (call (sys_malloc (size_of_int sz))) (\<lambda>data.
      chain (upd_loc (\<lambda>l. l\<lparr>gv_data := data\<rparr>)) (\<lambda>_.
      chain (bye_when (data = Null) (-1)) (\<lambda>_.
      chain (call (get_buf_heap sock data sz)) (\<lambda>(status, num_read).
      chain (cBYE status) (\<lambda>_.
      chain (upd_loc (\<lambda>l. l\<lparr>gv_out := Some (data, n)\<rparr>)) (\<lambda>_.
      done_with status)))))))"

definition get_vec ::
    "int \<Rightarrow> cstr option \<Rightarrow> cstr option \<Rightarrow> world \<Rightarrow> (int \<times> (ptr \<times> int) option, world) outcome" where
  "get_vec sock name qtype = proc \<lparr>ev_param1 = Null, gv_data = Indet, gv_out = None\<rparr>
     (chain (prepare_param name) (\<lambda>len_param1.
      chain (bye_when (name = None) (-1)) (\<lambda>_.
      case qtype of None \<Rightarrow> go_BYE (-1)
      | Some t \<Rightarrow> (case elem_width t of None \<Rightarrow> go_BYE (-1)
      | Some width \<Rightarrow>
          chain (send_request sock (lit ''CMD_eval'') len_param1) (\<lambda>ph.
          chain (call (read_hdr sock ph)) (\<lambda>(status, ph).
          chain (cBYE status) (\<lambda>_.
          chain (read_vec_head sock t (sint (len ph))) (\<lambda>num_left_to_read.
          read_vec_data sock width num_left_to_read))))))))
     (\<lambda>status l w.
        obind (if status < 0 then free_all [gv_data l] w else Done () w) (\<lambda>_ w1.
        obind (free_all [ev_param1 l] w1) (\<lambda>_ w2.
        Done (status, if status < 0 then Some (Null, 0) else gv_out l) w2)))"

section \<open>Rules\<close>

lemma vec_sizes:
  assumes "0 < unat width" and "m = unat width * k" and "m < 2 ^ 31"
  shows "to_int ((word_of_int (int m) :: u32) div width) = int k"
    and "to_int ((word_of_int (int k) :: u32) * width) = int m"
proof -
  have m: "unat (of_nat m :: u32) = m" using assms(3) by (intro unat_of_nat_u32) simp
  have "k \<le> m" using assms(1,2) by simp
  then have k: "k < 2 ^ 31" using assms(3) by simp
  then have uk: "unat (of_nat k :: u32) = k" by (intro unat_of_nat_u32) simp
  have "unat ((of_nat m :: u32) div width) = k" using assms(1,2) m by (simp add: unat_div)
  then show "to_int ((word_of_int (int m) :: u32) div width) = int k"
    using to_int_small [of "(of_nat m :: u32) div width"] k by simp
  have "unat ((of_nat k :: u32) * width) = m"
    using assms(2,3) uk by (simp add: unat_word_ariths mult.commute)
  then show "to_int ((word_of_int (int k) :: u32) * width) = int m"
    using to_int_small [of "(of_nat k :: u32) * width"] assms(3) by simp
qed

lemma read_vec_data_rule:
  assumes o: "whole sock w0 m (d @ bs) q out w" and sock: "0 \<le> sock"
    and n: "n = int (length d)" "0 < unat width" "length d = unat width * k" "length d < 2 ^ 31"
    and Q: "\<And>i w'. whole sock w0 (m(i \<mapsto> d)) bs q out w' \<Longrightarrow> m i = None \<Longrightarrow>
      Q 0 (l\<lparr>gv_data := Ptr i, gv_out := Some (Ptr i, int k)\<rparr>) w'"
  shows "wp blk (read_vec_data sock width n) Q B R l w"
proof -
  have u: "unat (of_nat (length d) :: size_t) = length d" using n(4) by (intro unat_of_nat_size) simp
  show ?thesis
    unfolding read_vec_data_def n(1) vec_sizes [OF n(2,3,4)] Let_def wp_simps
    apply (rule runs_sys_malloc_whole [OF o])
     apply (use u n(4) in \<open>simp add: ptrdiff_max_def\<close>)
    apply (simp add: wp_simps u)
    apply (rule segment_reader.recv_block, assumption, simp, simp, rule sock, rule refl)
    apply (simp add: wp_simps)
    apply (rule Q, assumption, assumption)
    done
qed

text \<open>The head of a vector of \<open>width\<close>-byte elements, and of logicals with their count.\<close>

lemma read_vec_head_rule:
  assumes h: "whole sock w0 m (sexp_words xt n @ d @ rest) q out w" and sock: "0 \<le> sock"
    and t: "elem_xt t = Some xt" and n: "n < 2 ^ 24" and xt: "unat xt < 256"
    and ph: "num = int n + 8"
    and I1: "t = lit ''I1'' \<Longrightarrow> \<exists>c d'. length c = 4 \<and> d = c @ d' \<and> n = length d"
    and Q: "\<And>w'. whole sock w0 m ((if t = lit ''I1'' then drop 4 d else d) @ rest) q out w' \<Longrightarrow>
      Q (if t = lit ''I1'' then int n - 4 else int n) l w'"
  shows "wp blk (read_vec_head sock t num) Q B R l w"
proof -
  have tn: "to_int (of_nat n :: u32) = int n" using n by (intro to_int_of_nat) simp_all
  have n': "n < 16777216" "n \<le> 2147483647" using n by simp_all
  have m4: "to_int (size_of_int (int n) - 4) = int n - 4" if "4 \<le> n"
  proof -
    have "size_of_int (int n) - 4 = of_nat (n - 4)" using that by (simp add: size_of_int_of_nat of_nat_diff)
    moreover have "to_int (of_nat (n - 4) :: size_t) = int (n - 4)" using n by (intro to_int_of_nat) simp_all
    ultimately show ?thesis using that by simp
  qed
  have tw: "to_int (of_nat (length d') :: size_t) = int (length d')" if "length d' \<le> n" for d' :: "byte list"
    using that n by (intro to_int_of_nat) simp_all
  show ?thesis
    unfolding read_vec_head_def read_words_def wp_simps ph
    apply (rule runs_sys_read_whole [OF h], simp, simp)
    apply (simp add: wp_simps t xt n' tn Let_def)
    apply (intro conjI impI)
     defer
     apply (use Q in auto)[1]
    apply (frule I1, elim exE conjE)
    subgoal for w' c d'
      by (rule segment_reader.recv_n [where xs = c and bs = "d' @ rest"])
        (use sock m4 Q tw in \<open>auto simp: wp_simps\<close>)
    done
qed

lemma vec_request_rule:
  assumes h: "whole sock w0 m (enc_phdr ph @ bs) q out w" and sock: "0 \<le> sock" and p: "ev_param1 l = Null"
    and fits: "fits_packet (length s)"
    and Q: "\<And>w'. whole sock w0 m bs q (out @ eval_request True s) w' \<Longrightarrow> Q (0, ph) l w'"
  shows "wp blk (prepare_param (Some s)) (\<lambda>n l' w'. wp blk (send_request sock (lit ''CMD_eval'') n)
    (\<lambda>ph0 l' w'. runs blk (read_hdr sock ph0 w') (\<lambda>a. Q a l')) B R l' w') B R l w"
  by (rule whole_channel.request_rule [OF h p, where code = CMD_eval])
    (use fits sock Q in \<open>auto simp: fits_packet_cstr eval_request_def intro: runs_read_hdr_whole\<close>)

lemma runs_get_vec:
  assumes h: "whole sock w0 m (enc_phdr ph @ sexp_words xt (length d) @ d @ rest) q out w" and sock: "0 \<le> sock"
    and fits: "fits_packet (length s)" and ph: "len ph = of_nat (length d + 8)"
    and t: "elem_width t = Some width" "elem_xt t = Some xt" and d: "length d < 2 ^ 24"
    and k: "length d = (if t = lit ''I1'' then 4 else 0) + unat width * k" 
    and P: "\<And>i w'. whole sock w0 (m(i \<mapsto> (if t = lit ''I1'' then drop 4 d else d))) rest q (out @ eval_request True s) w' \<Longrightarrow>
      m i = None \<Longrightarrow> Q (0, Some (Ptr i, int k)) w'"
  shows "runs blk (get_vec sock (Some s) (Some t) w) Q"
proof -
  have n: "sint (len ph) = int (length d) + 8" unfolding ph using d by (subst sint_of_nat_u32) simp_all
  have xt: "unat xt < 256" "0 < unat width"
    using t by (auto simp: elem_xt_def elem_width_def XT_ARRAY_DOUBLE_def XT_ARRAY_INT_def XT_ARRAY_BOOL_def split: if_splits)
  let ?d = "if t = lit ''I1'' then drop 4 d else d"
  have d': "length ?d = unat width * k" "length ?d < 2 ^ 31" "(if t = lit ''I1'' then int (length d) - 4 else int (length d)) = int (length ?d)"
    using k d by auto
  have split: "\<exists>c d'. length c = 4 \<and> d = c @ d' \<and> length d = length d" if "t = lit ''I1''"
    using that k by (intro exI [of _ "take 4 d"] exI [of _ "drop 4 d"]) auto
  show ?thesis
    unfolding get_vec_def
    apply (simp only: wp_simps prod.case option.case t option.distinct if_False)
    apply (rule vec_request_rule [OF h sock _ fits], simp)
    apply (simp only: wp_simps prod.case less_irrefl if_False)
    apply (rule read_vec_head_rule, assumption, rule sock, rule t, rule d, rule xt, rule n, erule split)
    apply (simp only: d'(3))
    apply (rule read_vec_data_rule, assumption, rule sock, rule refl, rule xt, rule d', rule d')
    apply (simp add: wp_simps P)
    done
qed

lemma get_vec_reply:
  assumes a: "arrives sock (sexp_reply xt d @ rest) q w" and fits: "fits_packet (length name)"
    and t: "elem_width t = Some width" "elem_xt t = Some xt" and d: "length d < 2 ^ 24"
    and k: "length d = (if t = lit ''I1'' then 4 else 0) + unat width * k"
  obtains i w' where "get_vec sock (Some name) (Some t) w = Done (0, Some (Ptr i, int k)) w'"
    "heap w i = None" "heap w' = (heap w)(i \<mapsto> (if t = lit ''I1'' then drop 4 d else d))"
    "pending sock w' = Some (rest @ avail q)" "sent sock w' = sent sock w @ eval_request True name"
proof -
  have wf: "wf_heap w" "0 \<le> sock" using a by (simp_all add: arrives_def)
  have h: "whole sock w Map.empty (enc_phdr \<lparr>cmd = RESP_OK, len = of_nat (length d + 8), msg_id = 0, res = 0\<rparr> @
    sexp_words xt (length d) @ d @ rest) q (sent sock w) w"
    using a by (simp add: arrives_def sexp_reply_words)
  let ?d = "if t = lit ''I1'' then drop 4 d else d"
  have "runs False (get_vec sock (Some name) (Some t) w) (\<lambda>r w'. \<exists>i. r = (0, Some (Ptr i, int k)) \<and>
    whole sock w [i \<mapsto> ?d] rest q (sent sock w @ eval_request True name) w')"
    by (rule runs_get_vec [OF h wf(2) fits _ t d k]) simp_all
  then obtain i w' where r: "get_vec sock (Some name) (Some t) w = Done (0, Some (Ptr i, int k)) w'"
    and h': "whole sock w [i \<mapsto> ?d] rest q (sent sock w @ eval_request True name) w'"
    by (auto dest!: runs_total)
  note o = whole_online [OF h']
  show ?thesis
    by (rule that [OF r]) (use o since_one_self [OF wf(1), of sock i] in \<open>auto simp: online_def\<close>)
qed

section \<open>Properties\<close>

text \<open>C21. A response in one segment: \<open>get_vec\<close> of type F8 returns a new block with exactly the doubles sent and
  their number, and consumes exactly the response.\<close>

theorem get_vec_F8_answers:
  assumes "arrives sock (sexp_reply XT_ARRAY_DOUBLE (array le64 vs) @ rest) q w" and "fits_packet (length name)"
    and "8 * length vs < 2 ^ 24"
  shows "\<exists>i blk w'. get_vec sock (Some name) (Some (lit ''F8'')) w = Done (0, Some (Ptr i, int (length vs))) w' \<and>
    heap w i = None \<and> heap w' = (heap w)(i \<mapsto> blk) \<and> elements 8 le_dec blk = vs \<and>
    pending sock w' = Some (rest @ avail q) \<and> sent sock w' = sent sock w @ eval_request True name"
proof -
  obtain i w' where "get_vec sock (Some name) (Some (lit ''F8'')) w = Done (0, Some (Ptr i, int (length vs))) w'"
    "heap w i = None" "heap w' = (heap w)(i \<mapsto> array le64 vs)"
    "pending sock w' = Some (rest @ avail q)" "sent sock w' = sent sock w @ eval_request True name"
    by (rule get_vec_reply [OF assms(1,2), where t = "lit ''F8''" and k = "length vs" and width = 8])
      (use assms(3) in \<open>simp_all add: elem_width_def elem_xt_def double_elt.length_array\<close>)
  then show ?thesis using double_elt.elements_array [of vs] by blast
qed

theorem get_vec_F8_answers_witness:
  "\<exists>i blk w'. get_vec 3 (Some (lit ''x'')) (Some (lit ''F8'')) (peer_world [sexp_reply XT_ARRAY_DOUBLE (array le64 [1, 2])]) =
     Done (0, Some (Ptr i, 2)) w' \<and> elements 8 le_dec blk = [1, 2 :: 64 word]"
  using get_vec_F8_answers [of 3 "[1, 2]" "[]" "[Eof]" "peer_world [sexp_reply XT_ARRAY_DOUBLE (array le64 [1, 2])]" "lit ''x''"]
  by (simp add: fits_packet_def) blast

text \<open>C22. Logicals: R sends their count and pads them to a multiple of four. \<open>get_vec\<close> of type I1 drops the count and
  returns the padding as elements.\<close>

theorem get_vec_I1_padding:
  assumes "arrives sock (sexp_reply XT_ARRAY_BOOL (bool_array vs) @ rest) q w" and "fits_packet (length name)"
    and "length vs + 8 < 2 ^ 24"
  shows "\<exists>i w'. get_vec sock (Some name) (Some (lit ''I1'')) w =
      Done (0, Some (Ptr i, int (length vs + (3 * length vs) mod 4))) w' \<and>
    heap w' = (heap w)(i \<mapsto> vs @ replicate ((3 * length vs) mod 4) 0xff)"
proof -
  have l: "length (bool_array vs) = 4 + (length vs + (3 * length vs) mod 4)"
    by (simp add: bool_array_def pad4_def)
  obtain i w' where "get_vec sock (Some name) (Some (lit ''I1'')) w =
      Done (0, Some (Ptr i, int (length vs + (3 * length vs) mod 4))) w'"
    "heap w' = (heap w)(i \<mapsto> drop 4 (bool_array vs))"
    by (rule get_vec_reply [OF assms(1,2), where t = "lit ''I1''" and k = "length vs + (3 * length vs) mod 4" and width = 1])
      (use assms(3) in \<open>simp_all add: elem_width_def elem_xt_def lit_def l\<close>)
  then show ?thesis by (auto simp: bool_array_def pad4_def)
qed

theorem get_vec_I1_padding_witness:
  "\<exists>i w'. get_vec 3 (Some (lit ''b'')) (Some (lit ''I1'')) (peer_world [sexp_reply XT_ARRAY_BOOL (bool_array [1])]) =
     Done (0, Some (Ptr i, 4)) w' \<and> heap w' i = Some (1 # replicate 3 0xff)"
  using get_vec_I1_padding [of 3 "[1]" "[]" "[Eof]" "peer_world [sexp_reply XT_ARRAY_BOOL (bool_array [1])]" "lit ''b''"]
  by (auto simp: fits_packet_def)

text \<open>C23. Every rejected argument is undefined behaviour: BYE frees \<open>data\<close>, which has no value yet.\<close>

theorem get_vec_rejects_undefined:
  assumes "wf_heap w" and "\<And>s. name = Some s \<Longrightarrow> cstr_fits s"
    and "name = None \<or> Option.bind qtype elem_width = None"
  shows "get_vec sock name qtype w = Undef Uninit_use"
proof -
  let ?l = "\<lparr>ev_param1 = Null, gv_data = Indet, gv_out = None\<rparr>"
  let ?body = "chain (prepare_param name) (\<lambda>len_param1.
      chain (bye_when (name = None) (-1)) (\<lambda>_.
      case qtype of None \<Rightarrow> go_BYE (-1)
      | Some t \<Rightarrow> (case elem_width t of None \<Rightarrow> go_BYE (-1)
      | Some width \<Rightarrow>
          chain (send_request sock (lit ''CMD_eval'') len_param1) (\<lambda>ph.
          chain (call (read_hdr sock ph)) (\<lambda>(status, ph).
          chain (cBYE status) (\<lambda>_.
          chain (read_vec_head sock t (sint (len ph))) (\<lambda>num_left_to_read.
          read_vec_data sock width num_left_to_read))))))) :: (int, int \<times> (ptr \<times> int) option, vec_vars, world) cmd"
  have rejected: "wp False (case qtype of None \<Rightarrow> go_BYE (-1) | Some t \<Rightarrow> (case elem_width t of None \<Rightarrow> go_BYE (-1) | Some width \<Rightarrow> f t width))
      Q B R l w'" if "B (-1) l w'" "name \<noteq> None" for f Q B R l w'
    using that assms(3) by (auto simp: wp_simps split: option.split)
  have "wp False ?body (\<lambda>_ _ _. False) (\<lambda>st l _. st < 0 \<and> gv_data l = Indet) (\<lambda>_ _ _. False) ?l w"
    unfolding wp_chain
    by (rule any_channel.prepare_param_rule [OF since_start [OF assms(1)], of _ _ sock])
      (simp_all add: assms(2) wp_bye_when rejected)
  from wp_Bye [OF this] obtain st l' w' where run: "?body (?l, w) = Bye st (l', w')" "st < 0" "gv_data l' = Indet"
    by blast
  show ?thesis unfolding get_vec_def proc_def run(1) by (simp add: run(2,3) sys_free_def)
qed

theorem get_vec_rejects_undefined_witness:
  "get_vec 3 (Some (lit ''x'')) (Some (lit ''F4'')) (peer_world []) = Undef Uninit_use"
  by (rule get_vec_rejects_undefined)
    (auto simp: wf_heap_def peer_world_def cstr_fits_def elem_width_def lit_def)

text \<open>C24. An error that R reports, a header with \<open>RESP_ERR\<close>, any error code and no contents, is not recognised:
  \<open>get_vec\<close> goes on to read the two words of a result. On a connection that stays open without a receive timeout it
  waits for ever; when the wait ends by a timeout, the end of the stream or an error, it has undefined behaviour, again
  by freeing the indeterminate \<open>data\<close>.\<close>

theorem get_vec_on_R_error:
  assumes "arrives sock (enc_phdr \<lparr>cmd = SET_STAT RESP_ERR e, len = 0, msg_id = i, res = r\<rparr>) q w"
    and "q = [] \<or> hd q = Eof \<or> hd q = Rcv_error" and "fits_packet (length name)" and "elem_width t \<noteq> None"
  shows "get_vec sock (Some name) (Some t) w = (if q = [] \<and> \<not> closes sock w then Blocked else Undef Uninit_use)"
proof -
  let ?ph = "\<lparr>cmd = SET_STAT RESP_ERR e, len = 0, msg_id = i, res = r\<rparr>"
  have wf: "0 \<le> sock" using assms by (simp add: arrives_def)
  have h: "whole sock w Map.empty (enc_phdr ?ph @ []) q (sent sock w) w"
    using assms(1) by (simp add: arrives_def)
  let ?l = "\<lparr>ev_param1 = Null, gv_data = Indet, gv_out = None\<rparr>"
  obtain w' where w': "whole sock w Map.empty [] q (sent sock w @ eval_request True name) w'"
    and run: "\<And>k :: int \<times> phdr \<Rightarrow> (int, int \<times> (ptr \<times> int) option, vec_vars, world) cmd. chain (prepare_param (Some name)) (\<lambda>n. chain (send_request sock (lit ''CMD_eval'') n) (\<lambda>ph0.
       chain (call (read_hdr sock ph0)) k)) (?l, w) = k (0, ?ph) (?l, w')"
    by (rule request_exec [OF h wf _ assms(3), of ?l]) auto
  obtain width where t: "elem_width t = Some width" using assms(4) by auto
  have get: "get_vec sock (Some name) (Some t) w = (case sys_read sock 8 w' of Blocked \<Rightarrow> Blocked | _ \<Rightarrow> Undef Uninit_use)"
    if "sys_read sock 8 w' = Blocked \<or> (\<exists>nr w''. nr \<le> 0 \<and> sys_read sock 8 w' = Done (nr, []) w'')"
    unfolding get_vec_def proc_def using that t
    by (simp only: option.distinct option.case bye_when_False run)
      (auto simp: exec_chain read_vec_head_def read_words_def sys_free_def)
  show ?thesis
  proof (cases "q = [] \<and> \<not> closes sock w")
    case True
    then have "sys_read sock 8 w' = Blocked" using w' by (auto elim!: wholeE simp: sys_read_def closes_conn)
    then show ?thesis using get True by simp
  next
    case False
    have "q = [] \<Longrightarrow> closes sock w'" using False since_closes [OF whole_since [OF w']] by blast
    then have "\<exists>nr w''. nr \<le> 0 \<and> sys_read sock 8 w' = Done (nr, []) w''"
      using w' assms(2) by (cases q) (auto elim!: wholeE simp: sys_read_def closes_conn)
    then show ?thesis using get False by auto
  qed
qed

theorem get_vec_on_R_error_witness:
  "let seg = enc_phdr \<lparr>cmd = SET_STAT RESP_ERR 0x44, len = 0, msg_id = 0, res = 0\<rparr>;
       run = (\<lambda>q. get_vec 3 (Some (lit ''nosuch'')) (Some (lit ''F8'')) (put_conn 3 (peer_conn [seg] q) (peer_world [])))
   in run [] = Blocked \<and> run [Eof] = Undef Uninit_use"
proof -
  let ?seg = "enc_phdr \<lparr>cmd = SET_STAT RESP_ERR 0x44, len = 0, msg_id = 0, res = 0\<rparr>"
  let ?w = "\<lambda>q. put_conn 3 (peer_conn [?seg] q) (peer_world [])"
  have a: "arrives 3 ?seg q (?w q)" for q by (rule arrives_ending) simp
  have "\<not> closes 3 (?w [])" by (simp add: closes_def peer_conn_def)
  then show ?thesis
    using get_vec_on_R_error [OF a [of "[]"], of "lit ''nosuch''" "lit ''F8''"]
      get_vec_on_R_error [OF a [of "[Eof]"], of "lit ''nosuch''" "lit ''F8''"]
    by (simp add: Let_def fits_packet_def elem_width_def)
qed

end
