(* ===== verification/Set_Vec.thy ===== *)
theory Set_Vec
  imports Rpc Arrays
begin

text \<open>
  \<open>set_vec\<close> of src/set_vec.c: assigns a vector of doubles, integers, logicals or fixed-width strings to an
  R variable. The caller's array is a block of the heap; the second parameter of the request is built in
  a block of \<open>posix_memalign\<close>, but only its header words are sent from there, the elements are sent
  straight from the caller's array, or, for strings, from a block in which they are packed.

  All lengths are \<open>uint32_t\<close>, and so is the product \<open>n*width\<close>: they wrap.
\<close>

section \<open>The function\<close>

record set_vars = param_vars +
  sv_param2 :: ptr
  sv_alt :: ptr

text \<open>\<open>strlen\<close> of a pointer into a block.\<close>

definition load_str_at :: "ptr \<Rightarrow> nat \<Rightarrow> world \<Rightarrow> (cstr, world) outcome" where
  "load_str_at p off w = (case p of
       Null \<Rightarrow> Undef Null_deref
     | Indet \<Rightarrow> Undef Uninit_use
     | Ptr i \<Rightarrow> (case heap w i of
           None \<Rightarrow> Undef Out_of_bounds
         | Some blk \<Rightarrow> (if length blk < off then Undef Out_of_bounds
                        else if 0 \<in> set (drop off blk) then Done (takeWhile (\<lambda>b. b \<noteq> 0) (drop off blk)) w
                        else Undef Unterminated)))"

text \<open>Lines 32 to 51: \<open>width\<close> and \<open>xt_val\<close>; \<open>None\<close> is \<open>go_BYE(-1)\<close>.\<close>

definition set_type :: "cstr \<Rightarrow> u32 \<Rightarrow> (u32 \<times> u32) option" where
  "set_type qtype in_width =
     (if qtype = lit ''F8'' then Some (8, XT_ARRAY_DOUBLE)
      else if qtype = lit ''I4'' then Some (4, XT_ARRAY_INT)
      else if qtype = lit ''I1'' then Some (1, XT_ARRAY_BOOL)
      else if qtype = lit ''SC'' then (if in_width = 0 then None else Some (in_width, XT_ARRAY_STR))
      else None)"

text \<open>Lines 64 to 69, from \<open>i\<close> on, with \<open>k\<close> elements to go: the lengths of the strings with their NULs.\<close>

fun sc_measure :: "ptr \<Rightarrow> u32 \<Rightarrow> nat \<Rightarrow> u32 \<Rightarrow> u32 \<Rightarrow> (u32, 'r, set_vars, world) cmd" where
  "sc_measure data width 0 i cum_len = done_with cum_len"
| "sc_measure data width (Suc k) i cum_len =
     chain (call (load_str_at data (unat (i * width)))) (\<lambda>s.
     let ln = of_nat (length s) :: u32 in
     chain (bye_when (width \<le> ln) (-1)) (\<lambda>_.
     sc_measure data width k (i + 1) (cum_len + ln + 1)))"

text \<open>Lines 76 to 81: the strings are copied one behind the other.\<close>

fun sc_copy :: "ptr \<Rightarrow> ptr \<Rightarrow> u32 \<Rightarrow> nat \<Rightarrow> u32 \<Rightarrow> u32 \<Rightarrow> (u32, 'r, set_vars, world) cmd" where
  "sc_copy data alt_data width 0 i idx = done_with idx"
| "sc_copy data alt_data width (Suc k) i idx =
     chain (call (load_str_at data (unat (i * width)))) (\<lambda>s.
     let ln = of_nat (length s) :: u32 in
     chain (call (load data (unat (i * width)) (unat ln))) (\<lambda>bytes.
     chain (call (store alt_data (unat idx) bytes)) (\<lambda>_.
     sc_copy data alt_data width k (i + 1) (idx + ln + 1))))"

text \<open>Lines 70 to 73.\<close>

definition round_up8 :: "u32 \<Rightarrow> u32" where
  "round_up8 cum_len = (let uitmp = cum_len div 8 in if uitmp * 8 \<noteq> cum_len then (uitmp + 1) * 8 else cum_len)"

text \<open>Lines 62 to 89; the value is \<open>cum_len\<close>. Neither the result of \<open>malloc\<close> nor the 32-bit sums are
  checked. The loop that fills up with \<open>X\<close> is one store.\<close>

definition sc_pack :: "ptr \<Rightarrow> u32 \<Rightarrow> u32 \<Rightarrow> (u32, 'r, set_vars, world) cmd" where
  "sc_pack data n width =
     chain (sc_measure data width (unat n) 0 0) (\<lambda>cum_len.
     let cum_len = round_up8 cum_len in
     chain (call (sys_malloc (ucast cum_len))) (\<lambda>alt_data.
     chain (upd_loc (\<lambda>l. l\<lparr>sv_alt := alt_data\<rparr>)) (\<lambda>_.
     chain (call (store alt_data 0 (replicate (unat cum_len) 0))) (\<lambda>_.
     chain (sc_copy data alt_data width (unat n) 0 0) (\<lambda>idx.
     chain (if idx < cum_len
            then call (store alt_data (unat idx) (replicate (unat cum_len - unat idx) (of_char CHR ''X'')))
            else done_with ()) (\<lambda>_.
     done_with cum_len))))))"

text \<open>Lines 93 to 107: the header words of the second parameter.\<close>

definition fill_param2 :: "ptr \<Rightarrow> size_t \<Rightarrow> u32 \<Rightarrow> u32 \<Rightarrow> u32 \<Rightarrow> u32 \<Rightarrow> (unit, 'r, set_vars, world) cmd" where
  "fill_param2 param2 len_param2 xt_val n width cum_len =
     chain (call (store param2 0 (replicate (unat len_param2) 0))) (\<lambda>_.
     chain (call (store param2 0 (le32 (ucast (push_bit 8 len_param2) OR DT_SEXP)))) (\<lambda>_.
     chain (call (store param2 4 (le32 (ucast (push_bit 8 len_param2) OR xt_val)))) (\<lambda>_.
     chain (if xt_val = XT_ARRAY_DOUBLE \<or> xt_val = XT_ARRAY_INT
            then call (store param2 4 (le32 (push_bit 8 (n * width) OR xt_val))) else done_with ()) (\<lambda>_.
     chain (if xt_val = XT_ARRAY_STR
            then call (store param2 4 (le32 (push_bit 8 cum_len OR xt_val))) else done_with ()) (\<lambda>_.
     if xt_val = XT_ARRAY_BOOL then call (store param2 8 (le32 n)) else done_with ())))))"

text \<open>Lines 122 to 140: the branch on \<open>use_memcpy\<close>, a constant \<open>false\<close>, is left out.\<close>

definition send_param2 ::
    "int \<Rightarrow> ptr \<Rightarrow> nat \<Rightarrow> cstr \<Rightarrow> ptr \<Rightarrow> u32 \<Rightarrow> u32 \<Rightarrow> u32 \<Rightarrow> (unit, 'r, set_vars, world) cmd" where
  "send_param2 sock param2 len_hdr_param2 qtype data n width cum_len =
     chain (call (load param2 0 len_hdr_param2)) (\<lambda>bytes.
     chain (call (sys_send sock bytes)) (\<lambda>num_sent.
     chain (bye_when (to_int (size_of_int num_sent) \<noteq> int len_hdr_param2) (-1)) (\<lambda>_.
     chain (get_loc sv_alt) (\<lambda>alt_data.
     chain (if qtype = lit ''SC'' then call (load alt_data 0 (unat cum_len))
            else call (load data 0 (unat (n * width)))) (\<lambda>bytes.
     chain (call (sys_send sock bytes)) (\<lambda>num_sent.
     chain (bye_when (size_of_int num_sent \<noteq> ucast cum_len) (-1)) (\<lambda>_.
     chain (call (sys_free param2)) (\<lambda>_.
     upd_loc (\<lambda>l. l\<lparr>sv_param2 := Null\<rparr>)))))))))"

text \<open>Lines 90 to 140; the value is the header sent.\<close>

definition set_finish ::
    "int \<Rightarrow> cstr \<Rightarrow> ptr \<Rightarrow> u32 \<Rightarrow> u32 \<Rightarrow> u32 \<Rightarrow> size_t \<Rightarrow> u32 \<Rightarrow> (phdr, 'r, set_vars, world) cmd" where
  "set_finish sock qtype data n width xt_val len_param1 cum_len =
     (let len_hdr_param2 = (if xt_val = XT_ARRAY_BOOL then 12 else 8);
          len_param2 = ucast (of_nat len_hdr_param2 + cum_len :: u32)
      in
     chain (call (sys_memalign len_param2)) (\<lambda>(status, param2).
     chain (upd_loc (\<lambda>l. l\<lparr>sv_param2 := param2\<rparr>)) (\<lambda>_.
     chain (cBYE status) (\<lambda>_.
     chain (bye_when (param2 = Null) (-1)) (\<lambda>_.
     chain (fill_param2 param2 len_param2 xt_val n width cum_len) (\<lambda>_.
     chain (send_header sock (lit ''CMD_setSEXP'') (len_param1 + len_param2)) (\<lambda>ph.
     chain (send_param sock len_param1) (\<lambda>_.
     chain (send_param2 sock param2 len_hdr_param2 qtype data n width cum_len) (\<lambda>_.
     done_with ph)))))))))"

text \<open>Lines 53 to 140, once the arguments have been accepted.\<close>

definition set_request ::
    "int \<Rightarrow> cstr option \<Rightarrow> cstr \<Rightarrow> ptr \<Rightarrow> u32 \<Rightarrow> u32 \<Rightarrow> u32 \<Rightarrow> (phdr, 'r, set_vars, world) cmd" where
  "set_request sock name qtype data n width xt_val =
     chain (prepare_param name) (\<lambda>len_param1.
     chain (if qtype = lit ''SC'' then sc_pack data n width else done_with (n * width)) (\<lambda>cum_len.
     set_finish sock qtype data n width xt_val len_param1 cum_len))"

definition set_vec ::
    "int \<Rightarrow> cstr option \<Rightarrow> cstr option \<Rightarrow> ptr \<Rightarrow> u32 \<Rightarrow> u32 \<Rightarrow> world \<Rightarrow> (int, world) outcome" where
  "set_vec sock name qtype data n in_width =
     proc \<lparr>ev_param1 = Null, sv_param2 = Null, sv_alt = Null\<rparr>
       (chain (bye_when (sock < 0) (-1)) (\<lambda>_.
        chain (bye_when (name = None \<or> name = Some []) (-1)) (\<lambda>_.
        case qtype of None \<Rightarrow> go_BYE (-1)
        | Some t \<Rightarrow>
            chain (bye_when (t = []) (-1)) (\<lambda>_.
            chain (bye_when (data = Null) (-1)) (\<lambda>_.
            chain (bye_when (n = 0) (-1)) (\<lambda>_.
            case set_type t in_width of None \<Rightarrow> go_BYE (-1)
            | Some (width, xt_val) \<Rightarrow>
                chain (set_request sock name t data n width xt_val) (\<lambda>ph.
                chain (call (read_hdr sock ph)) (\<lambda>(status, ph).
                chain (cBYE status) (\<lambda>_.
                chain (bye_when (len ph \<noteq> 0) (-1)) (\<lambda>_.
                done_with status))))))))))
       (\<lambda>status l w. obind (free_all [ev_param1 l, sv_param2 l, sv_alt l] w) (\<lambda>_ w'. Done status w'))"

context lender
begin

lemma load_str_lent:
  "A out m w \<Longrightarrow> lent j = Some d \<Longrightarrow> off \<le> length d \<Longrightarrow> 0 \<in> set (drop off d) \<Longrightarrow>
   S (takeWhile (\<lambda>b. b \<noteq> 0) (drop off d)) w \<Longrightarrow> runs blk (load_str_at (Ptr j) off w) S"
  using lent [of out m w j d] by (simp add: load_str_at_def)

end

section \<open>The second parameter\<close>

text \<open>Its header words as the code fills them, for contents of \<open>c\<close> bytes.\<close>

definition param2_words :: "u32 \<Rightarrow> u32 \<Rightarrow> nat \<Rightarrow> byte list" where
  "param2_words xt n c =
     (if xt = XT_ARRAY_BOOL then le32 (SET_PAR DT_SEXP (of_nat (12 + c))) @ le32 (SET_PAR xt (of_nat (12 + c))) @ le32 n
      else le32 (SET_PAR DT_SEXP (of_nat (8 + c))) @ le32 (SET_PAR xt (of_nat c)))"

definition xt_known :: "u32 \<Rightarrow> bool" where
  "xt_known xt \<longleftrightarrow> xt \<in> {XT_ARRAY_DOUBLE, XT_ARRAY_INT, XT_ARRAY_STR, XT_ARRAY_BOOL}"

lemma set_word: "unat xt < 256 \<Longrightarrow> ucast (push_bit 8 (of_nat k :: size_t)) OR xt = SET_PAR xt (of_nat k)"
proof -
  assume xt: "unat xt < 256"
  have "(ucast (push_bit 8 (of_nat k :: size_t)) :: u32) = push_bit 8 (of_nat k)"
    by (rule bit_word_eqI) (auto simp: bit_simps)
  then show ?thesis using SET_PAR_shift [OF xt] by simp
qed

context lender
begin

lemma fill_param2_rule:
  assumes a: "A out (m(i \<mapsto> b)) w" and b: "length b = h + c" and h: "h = (if xt = XT_ARRAY_BOOL then 12 else 8)"
    and xt: "xt_known xt" and c: "cum_len = of_nat c" "xt \<noteq> XT_ARRAY_STR \<Longrightarrow> n * width = cum_len" and n: "n2 = of_nat (h + c)" "h + c < 2 ^ 32"
    and Q: "\<And>w'. A out (m(i \<mapsto> param2_words xt n c @ replicate c 0)) w' \<Longrightarrow> Q () l w'"
  shows "wp blk (fill_param2 (Ptr i) n2 xt n width cum_len) Q B R l w"
proof -
  have u: "unat n2 = h + c" unfolding n(1) by (rule unat_of_nat_size) (use n(2) in simp)
  have x: "unat xt < 256" using xt by (auto simp: xt_known_def xt_codes)
  have words: "ucast (push_bit 8 n2) OR DT_SEXP = SET_PAR DT_SEXP (of_nat (h + c))"
    "ucast (push_bit 8 n2) OR xt = SET_PAR xt (of_nat (h + c))" "push_bit 8 (of_nat c) OR xt = SET_PAR xt (of_nat c)"
    using set_word [of DT_SEXP "h + c"] set_word [OF x, of "h + c"] SET_PAR_shift [OF x] n(1) by (simp_all add: DT_SEXP_def)
  let ?z = "replicate 4 0 :: byte list"
  have z: "replicate (8 + c) (0 :: byte) = ?z @ ?z @ replicate c 0" "replicate (12 + c) (0 :: byte) = ?z @ ?z @ ?z @ replicate c 0"
    by (simp_all flip: replicate_add)
  show ?thesis
  proof (cases "xt = XT_ARRAY_BOOL")
    case True
    then have xs: "(xt = XT_ARRAY_BOOL) = True" "(xt = XT_ARRAY_DOUBLE) = False" "(xt = XT_ARRAY_INT) = False" "(xt = XT_ARRAY_STR) = False" "h = 12"
      using h by (simp_all add: xt_codes)
    show ?thesis
      unfolding fill_param2_def wp_simps u words
      apply (rule mem.overwrite [OF a, of "[]" b "[]"], simp, simp, simp add: b)
      apply (rule mem.overwrite [of _ _ _ _ _ "[]" ?z], assumption, simp add: xs z, simp, simp)
      apply (rule mem.overwrite [of _ _ _ _ _ "le32 (SET_PAR DT_SEXP (of_nat (h + c)))" ?z], assumption, simp, simp, simp)
      apply (simp only: xs if_False if_True simp_thms wp_simps)
      apply (rule mem.overwrite [of _ _ _ _ _ "le32 (SET_PAR DT_SEXP (of_nat (h + c))) @ le32 (SET_PAR xt (of_nat (h + c)))" ?z], assumption)
         apply (simp_all add: xs)
      apply (rule Q)
      apply (simp add: param2_words_def xs)
      done
  next
    case False
    then have xs: "h = 8" using h by simp
    have bo: "(xt = XT_ARRAY_BOOL) = False" using False by simp
    let ?D = "SET_PAR DT_SEXP (of_nat (h + c))"
    have nw: "xt = XT_ARRAY_DOUBLE \<or> xt = XT_ARRAY_INT \<Longrightarrow> push_bit 8 (n * width) OR xt = SET_PAR xt (of_nat c)"
      using c words(3) by (auto simp: xt_codes)
    consider (str) "(xt = XT_ARRAY_STR) = True" "(xt = XT_ARRAY_DOUBLE \<or> xt = XT_ARRAY_INT) = False"
      | (num) "(xt = XT_ARRAY_STR) = False" "(xt = XT_ARRAY_DOUBLE \<or> xt = XT_ARRAY_INT) = True"
      using xt False by (auto simp: xt_known_def xt_codes)
    then have one: "wp blk
       (chain (if xt = XT_ARRAY_DOUBLE \<or> xt = XT_ARRAY_INT
            then call (store (Ptr i) 4 (le32 (push_bit 8 (n * width) OR xt))) else done_with ()) (\<lambda>_.
     chain (if xt = XT_ARRAY_STR
            then call (store (Ptr i) 4 (le32 (push_bit 8 cum_len OR xt))) else done_with ()) (\<lambda>_.
     if xt = XT_ARRAY_BOOL then call (store (Ptr i) 8 (le32 n)) else done_with ()))) Q B R l w'
     = runs blk (store (Ptr i) 4 (le32 (SET_PAR xt (of_nat c))) w') (\<lambda>_. Q () l)" for w'
      by cases (simp_all only: if_True if_False bo wp_simps nw c(1) words)
    show ?thesis
      unfolding fill_param2_def wp_chain [where m = "call _"] one wp_call u words
      apply (rule mem.overwrite [OF a, of "[]" b "[]"], simp, simp, simp add: b)
      apply (rule mem.overwrite [of _ _ _ _ _ "[]" ?z], assumption, simp add: xs z, simp, simp)
      apply (rule mem.overwrite [of _ _ _ _ _ "le32 ?D" ?z], assumption, simp, simp, simp)
      apply (rule mem.overwrite [of _ _ _ _ _ "le32 ?D" "le32 (SET_PAR xt (of_nat (h + c)))"], assumption)
         apply (simp_all add: xs) [3]
      apply (rule Q)
      apply (simp add: param2_words_def False xs)
      done
  qed
qed

lemma send_param2_rule:
  assumes a: "A out (m(k \<mapsto> b)) w" and k: "m k = None" and h: "h \<le> length b" "h < 2 ^ 31"
    and c: "cum_len = of_nat (length content)" "length content < 2 ^ 32"
    and src: "\<And>out' w' Q'. A out' (m(k \<mapsto> b)) w' \<Longrightarrow> Q' content l w' \<Longrightarrow>
      wp blk (if qtype = lit ''SC'' then call (load (sv_alt l) 0 (unat cum_len)) else call (load data 0 (unat (n * width)))) Q' B R l w'"
    and B: "\<And>st out' w'. faulty \<Longrightarrow> A out' (m(k \<mapsto> b)) w' \<Longrightarrow> st < 0 \<Longrightarrow> B st l w'"
    and Q: "\<And>w'. A (out @ take h b @ content) m w' \<Longrightarrow> Q () (l\<lparr>sv_param2 := Null\<rparr>) w'"
  shows "wp blk (send_param2 sock (Ptr k) h qtype data n width cum_len) Q B R l w"
proof -
  have hh: "to_int (size_of_int r) \<noteq> int h" if "r = -1 \<or> 0 \<le> r \<and> r < int h" for r
  proof (cases "r = -1")
    case True
    then show ?thesis by (simp add: size_of_int_def to_int_minus_1)
  next
    case False
    with that obtain j where "r = int j" "j < h" by (metis nonneg_int_cases of_nat_less_iff)
    then show ?thesis using h(2) by (simp add: to_int_of_nat)
  qed
  have h1: "to_int (size_of_int (int h)) = int h" using h(2) by (simp add: to_int_of_nat)
  have cc: "ucast cum_len = (of_nat (length content) :: size_t)"
    unfolding c(1) word_unat_eq_iff unat_of_nat_size [OF order_less_trans [OF c(2)], simplified]
    using c(2) by (simp add: unsigned_ucast_eq unat_of_nat_u32 take_bit_nat_eq_self)
  have q: "size_of_int r \<noteq> of_nat (length content)" if "r = -1 \<or> 0 \<le> r \<and> r < int (length content)" for r
    using sent_short [OF that] c(2) by simp
  show ?thesis
    unfolding send_param2_def wp_chain wp_call wp_bye_when wp_get_loc wp_upd_loc cc
    apply (rule mem.load [OF a, of k b], simp, simp add: h)
    apply (rule send [OF a])
     apply (use hh h B in simp)
    apply (simp only: take_0 drop_0 length_take min_absorb2 h h1 simp_thms if_False)
    apply (rule src, assumption)
    apply (rule send, assumption)
     apply (use q B in simp)
    apply (simp only: sent_full simp_thms if_False)
    apply (rule mem.free, assumption, simp)
    apply (rule Q)
    apply (simp add: k)
    done
qed

lemma set_finish_rule:
  assumes a: "A out m2 w" and i: "m2 i = Some p" and l: "ev_param1 l = Ptr i" "sv_param2 l = Null"
    and own: "frees [Ptr i, sv_alt l] m2 m" and xt: "xt_known xt" and h: "h = (if xt = XT_ARRAY_BOOL then 12 else 8)"
    and c: "cum_len = of_nat (length content)" "xt \<noteq> XT_ARRAY_STR \<Longrightarrow> n * width = cum_len" "h + length content < 2 ^ 32"
    and p: "len_param1 = of_nat (length p)" "length p < 2 ^ 62" "faulty \<or> length p + h + length content < 2 ^ 31"
    and src: "\<And>m' out' w' l' Q'. A out' m' w' \<Longrightarrow> \<forall>j. sv_alt l = Ptr j \<longrightarrow> m' j = m2 j \<Longrightarrow> sv_alt l' = sv_alt l \<Longrightarrow> Q' content l' w' \<Longrightarrow>
      wp blk (if qtype = lit ''SC'' then call (load (sv_alt l') 0 (unat cum_len)) else call (load data 0 (unat (n * width)))) Q' B R l' w'"
    and B: "\<And>st out' w' l' m'. faulty \<Longrightarrow> A out' m' w' \<Longrightarrow> frees [ev_param1 l', sv_param2 l', sv_alt l'] m' m \<Longrightarrow> st < 0 \<Longrightarrow> B st l' w'"
    and Q: "\<And>ph w' l' out'. A out' (m2(i := None)) w' \<Longrightarrow>
      out' = out @ request CMD_setSEXP (p @ param2_words xt n (length content) @ content) \<Longrightarrow>
      l' = l\<lparr>ev_param1 := Null, sv_param2 := Null\<rparr> \<Longrightarrow> Q ph l' w'"
  shows "wp blk (set_finish sock qtype data n width xt len_param1 cum_len) Q B R l w"
proof -
  let ?c = "length content"
  have hx: "h = 8 \<or> h = 12" using h by simp
  have l2: "ucast (of_nat h + cum_len :: u32) = (of_nat (h + ?c) :: size_t)"
  proof -
    have "of_nat h + cum_len = (of_nat (h + ?c) :: u32)" using c(1) by simp
    moreover have "(ucast (of_nat (h + ?c) :: u32) :: size_t) = of_nat (h + ?c)"
      unfolding word_unat_eq_iff using c(3) unat_of_nat_u32 [of "h + ?c"] unat_of_nat_size [of "h + ?c"]
      by (simp only: unsigned_ucast_eq) (simp add: take_bit_nat_eq_self)
    ultimately show ?thesis by simp
  qed
  have l2u: "unat (of_nat (h + ?c) :: size_t) = h + ?c" using c(3) by (intro unat_of_nat_size) simp
  have pl: "unat (len_param1 + of_nat (h + ?c)) = length p + (h + ?c)"
  proof -
    have "len_param1 + of_nat (h + ?c) = (of_nat (length p + (h + ?c)) :: size_t)" using p(1) by simp
    then show ?thesis using p(2) c(3) by (simp only:) (rule unat_of_nat_size, simp)
  qed
  have pm: "h + ?c \<le> ptrdiff_max" using c(3) by (simp add: ptrdiff_max_def)
  have lw: "length (param2_words xt n ?c) = h" using h by (simp add: param2_words_def)
  have own': "frees ps (m2(k \<mapsto> b)) m" if "m2 k = None" "ps = [Ptr i, Ptr k, sv_alt l]" for k b ps
    using own that i by (auto simp: fun_upd_twist)
  have own2: "frees ps ((m2(k \<mapsto> b))(i := None)) m" if "m2 k = None" "ps = [Null, Ptr k, sv_alt l]" for k b ps
    using own that i by (auto simp: fun_upd_twist)
  show ?thesis
    unfolding set_finish_def Let_def h [symmetric] l2 wp_simps
  proof (rule mem.memalign [OF a], goal_cases)
    case 1
    then show ?case by (simp only: l2u pm simp_thms)
  next
    case (2 w')
    then have "B (-1) (l\<lparr>sv_param2 := Null\<rparr>) w'" by (rule_tac B) (use own l in auto)
    then show ?case by (simp add: wp_simps)
  next
    case (3 w' k b)
    let ?l = "l\<lparr>sv_param2 := Ptr k\<rparr>" and ?b = "param2_words xt n ?c @ replicate ?c 0"
    have ki: "i \<noteq> k" using 3 i by auto
    show ?case
      apply (simp only: prod.case wp_simps ptr.distinct less_irrefl if_False)
      apply (rule fill_param2_rule [OF 3(1) _ h xt c(1,2) refl c(3)])
        apply (use 3(3) l2u in simp)
       apply assumption
      apply (rule send_header_rule, assumption, rule pl)
          apply (use p(2) c(3) in simp)
         apply (use p(3) in auto)[1]
        apply simp
       apply (rule B, assumption, assumption, rule own' [OF 3(2)], simp add: l, assumption)
      apply (rule send_param_rule_at [where i = i], assumption)
          apply (use i ki in simp)
         apply (simp add: l)
        apply (rule p(1))
       apply (use p(2) in simp)
       apply (rule B, assumption, assumption, rule own' [OF 3(2)], simp add: l, assumption)
      apply (simp only: fun_upd_twist [OF ki [symmetric]])
      apply (rule send_param2_rule [where content = content], assumption)
            apply (use 3(2) in simp)
           apply (simp add: lw)
          apply (use hx in auto)[1]
         apply (rule c(1))
        apply (use c(3) in simp)
       apply (rule src, assumption)
         apply (use 3(2) own i in \<open>auto split: ptr.splits\<close>)[1]
        apply simp
       apply assumption
      apply (rule B, assumption, assumption)
       apply (use own2 [OF 3(2)] in \<open>simp add: l fun_upd_twist [OF ki [symmetric]]\<close>)
      apply assumption
      apply (rule Q, assumption)
       apply (simp add: request_def lw add.assoc [symmetric])
      apply simp
      done
   qed
qed

end

section \<open>Packing strings\<close>

text \<open>What the cells of a string vector hold, and what is sent for them.\<close>

definition cell_str :: "byte list \<Rightarrow> cstr" where
  "cell_str c = takeWhile (\<lambda>b. b \<noteq> 0) c"

definition sc_content :: "cstr list \<Rightarrow> byte list" where
  "sc_content ss = packed ss @ replicate (round8 (length (packed ss)) - length (packed ss)) (of_char CHR ''X'')"

text \<open>Cells of \<open>width\<close> bytes, each with a NUL in it.\<close>

definition cells_ok :: "nat \<Rightarrow> byte list list \<Rightarrow> bool" where
  "cells_ok width cells \<longleftrightarrow> (\<forall>c \<in> set cells. length c = width \<and> 0 \<in> set c)"

lemma cell_str_length: "0 \<in> set c \<Longrightarrow> length (cell_str c) < length c"
  unfolding cell_str_def by (induction c) auto

lemma cells_simps [simp]:
  "cells_ok wd [] \<longleftrightarrow> True" "cells_ok wd (c # cs) \<longleftrightarrow> length c = wd \<and> 0 \<in> set c \<and> cells_ok wd cs"
  "cells_ok wd (cs @ ds) \<longleftrightarrow> cells_ok wd cs \<and> cells_ok wd ds"
  by (auto simp: cells_ok_def)

lemma cells_length: "cells_ok wd cells \<Longrightarrow> length (concat cells) = length cells * wd"
  by (induction cells) auto

lemma packed_length: "cells_ok wd cells \<Longrightarrow> length (packed (map cell_str cells)) \<le> length cells * wd"
proof (induction cells)
  case (Cons c cells)
  then show ?case using cell_str_length [of c] by auto
qed simp

lemma cell_at:
  "cells_ok wd (ds @ c # cs) \<Longrightarrow> takeWhile (\<lambda>b. b \<noteq> 0) (drop (length ds * wd) (concat (ds @ c # cs))) = cell_str c"
  using cells_length [of wd ds] by (auto simp: cell_str_def takeWhile_append1)

lemma cell_prefix:
  "cells_ok wd (ds @ c # cs) \<Longrightarrow> take (length (cell_str c)) (drop (length ds * wd) (concat (ds @ c # cs))) = cell_str c"
  using cells_length [of wd ds] cell_str_length [of c] 
  by (auto simp: cell_str_def take_append takeWhile_eq_take [symmetric])

lemma cell_offset:
  "unat width = wd \<Longrightarrow> k * wd < 2 ^ 32 \<Longrightarrow> unat (of_nat k * width :: u32) = k * wd"
proof -
  assume "unat width = wd" "k * wd < 2 ^ 32"
  then have "width = of_nat wd" by auto
  then have "of_nat k * width = (of_nat (k * wd) :: u32)" by simp
  then show ?thesis using \<open>k * wd < 2 ^ 32\<close> by (simp only:) (rule unat_of_nat_u32)
qed

lemma round_up8_round8: "L + 8 \<le> 2 ^ 32 \<Longrightarrow> round_up8 (of_nat L) = of_nat (round8 L)"
proof -
  assume "L + 8 \<le> 2 ^ 32"
  then have L: "L + 8 \<le> 4294967296" by simp
  then have u: "unat (of_nat L :: u32) = L" by (intro unat_of_nat_u32) simp
  have "unat (of_nat (L div 8) :: u32) = L div 8" using L by (intro unat_of_nat_u32) simp
  moreover have "unat ((of_nat L :: u32) div 8) = L div 8" by (simp add: unat_div u)
  ultimately have "(of_nat L :: u32) div 8 = of_nat (L div 8)" by (simp only: word_unat_eq_iff)
  then have d: "(of_nat L :: u32) div 8 * 8 = of_nat (L div 8 * 8)" "((of_nat L :: u32) div 8 + 1) * 8 = of_nat ((L div 8 + 1) * 8)"
    by simp_all
  show ?thesis
  proof (cases "L mod 8 = 0")
    case True
    then obtain q where "L = 8 * q" by auto
    then have "L div 8 * 8 = L" "round8 L = L" by (simp_all add: round8_def)
    then show ?thesis unfolding round_up8_def Let_def d by (simp only: simp_thms if_False)
  next
    case False
    obtain k where k: "round8 L = 8 * k" using round8_bounds(3) [of L] by auto
    have "L = 8 * (L div 8) + L mod 8" "0 < L mod 8" "L mod 8 < 8" using False by simp_all
    then have "k = L div 8 + 1" using round8_bounds(1,2) [of L] k by linarith
    then have r: "round8 L = (L div 8 + 1) * 8" using k by simp
    have n: "L div 8 * 8 \<noteq> L" using False by (metis mod_mult_self2_is_0)
    have "unat (of_nat (L div 8 * 8) :: u32) = L div 8 * 8" using L by (intro unat_of_nat_u32) simp
    then have "(of_nat (L div 8 * 8) :: u32) \<noteq> of_nat L" using u n by metis
    then show ?thesis unfolding round_up8_def Let_def d r by (simp only: not_False_eq_True if_True)
  qed
qed


context lender
begin

lemma sc_measure_rule:
  assumes "A out m w" and "lent j = Some (concat (ds @ cs))" and "cells_ok wd (ds @ cs)" and wd: "unat width = wd"
    and "length (ds @ cs) * wd < 2 ^ 32"
    and "Q (cum + of_nat (length (packed (map cell_str cs)))) l w"
  shows "wp blk (sc_measure (Ptr j) width (length cs) (of_nat (length ds)) cum) Q B R l w"
  using assms(2,3,5,6)
proof (induction cs arbitrary: ds cum)
  case Nil
  then show ?case unfolding list.size sc_measure.simps wp_done_with by simp
next
  case (Cons c cs)
  have c: "length c = wd" "0 \<in> set c" "cells_ok wd ds" "cells_ok wd cs" using Cons.prems by simp_all
  have "length ds * wd < 2 ^ 32" using Cons.prems(3) by (simp add: algebra_simps)
  then have off: "unat (of_nat (length ds) * width :: u32) = length ds * wd" by (rule cell_offset [OF wd])
  have lc: "length (cell_str c) < wd" using cell_str_length [of c] c by simp
  have "wd < 2 ^ 32" using wd unsigned_less [of width, where 'a = nat] by simp
  then have u: "unat (of_nat (length (cell_str c)) :: u32) = length (cell_str c)" using lc by (intro unat_of_nat_u32) simp
  have short: "\<not> width \<le> of_nat (length (cell_str c))" using lc by (simp add: word_le_nat_alt u wd)
  show ?case
    unfolding sc_measure.simps list.size(4) add_0_right add_Suc_right Let_def wp_simps off
    apply (rule load_str_lent [OF assms(1) Cons.prems(1)])
      apply (use cells_length [OF c(3)] c in simp_all)[2]
    unfolding cell_at [OF Cons.prems(2)] 
    apply (simp only: short if_False)
    using Cons.IH [of "ds @ [c]" "cum + of_nat (length (cell_str c)) + 1"] Cons.prems
    apply (simp add: algebra_simps)
    done
qed


lemma sc_copy_rule:
  assumes a: "A out (m(k \<mapsto> pre @ pad)) w" and src: "lent j = Some (concat (ds @ cs))" and ok: "cells_ok wd (ds @ cs)"
    and wd: "unat width = wd" and n: "length (ds @ cs) * wd < 2 ^ 32"
    and pad: "pad = replicate z 0" "length (packed (map cell_str cs)) \<le> z" "length pre + z < 2 ^ 32"
    and Q: "\<And>w' i. A out (m(k \<mapsto> pre @ packed (map cell_str cs) @ replicate (z - length (packed (map cell_str cs))) 0)) w' \<Longrightarrow>
      i = length (pre @ packed (map cell_str cs)) \<Longrightarrow> Q (of_nat i) l w'"
  shows "wp blk (sc_copy (Ptr j) (Ptr k) width (length cs) (of_nat (length ds)) (of_nat (length pre))) Q B R l w"
  using a src ok n pad Q
proof (induction cs arbitrary: ds pre w z pad)
  case Nil
  then show ?case unfolding list.size sc_copy.simps wp_done_with by auto
next
  case (Cons c cs)
  have c: "length c = wd" "0 \<in> set c" "cells_ok wd ds" "cells_ok wd cs" using Cons.prems by simp_all
  have "length ds * wd < 2 ^ 32" using Cons.prems(4) by (simp add: algebra_simps)
  then have off: "unat (of_nat (length ds) * width :: u32) = length ds * wd" by (rule cell_offset [OF wd])
  have lc: "length (cell_str c) < wd" using cell_str_length [of c] c by simp
  have "wd < 2 ^ 32" using wd unsigned_less [of width, where 'a = nat] by simp
  then have u: "unat (of_nat (length (cell_str c)) :: u32) = length (cell_str c)" using lc by (intro unat_of_nat_u32) simp
  have ip: "unat (of_nat (length pre) :: u32) = length pre" using Cons.prems by (intro unat_of_nat_u32) simp
  define z' where "z' = z - length (cell_str c) - 1"
  have z: "replicate z (0 :: byte) = replicate (length (cell_str c)) 0 @ 0 # replicate z' 0" 
    "length (packed (map cell_str cs)) \<le> z'" "length (pre @ cell_str c @ [0]) + z' < 2 ^ 32"
    using Cons.prems(6,7) by (auto simp: z'_def simp flip: replicate_Suc replicate_add)
  have idx: "of_nat (length pre) + of_nat (length (cell_str c)) + 1 = (of_nat (length (pre @ cell_str c @ [0])) :: u32)"
    by simp
  show ?case
    unfolding sc_copy.simps list.size(4) add_0_right add_Suc_right Let_def wp_simps off ip u
    apply (rule load_str_lent [OF Cons.prems(1,2)])
      apply (use cells_length [OF c(3)] c in simp_all)[2]
    unfolding cell_at [OF Cons.prems(3)] u
    apply (rule load_lent [OF Cons.prems(1,2)])
     apply (use cells_length [OF c(3)] c lc in simp)
    unfolding cell_prefix [OF Cons.prems(3)] 
    apply (rule mem.overwrite [OF Cons.prems(1), of pre "replicate (length (cell_str c)) 0" "0 # replicate z' 0"])
       apply (simp_all add: Cons.prems(5) z(1))[3]
    unfolding idx
    subgoal premises p for w'
    proof -
      have ds: "(of_nat (length ds) + 1 :: u32) = of_nat (length (ds @ [c]))" by simp
      show ?thesis
        unfolding ds
        apply (rule Cons.IH [where z = z' and pad = "replicate z' 0"])
               apply (use p in \<open>simp only: append.simps append_assoc\<close>)
              apply (use Cons.prems(2) in simp)
             apply (use Cons.prems(3) in simp)
            apply (use Cons.prems(4) in simp)
           apply (rule refl)
          apply (rule z)
         apply (rule z)
        apply (rule Cons.prems(8))
         apply (simp only: append.simps append_assoc list.map packed_simps list.size z'_def)
         apply (simp only: length_append list.size)
         apply simp
        apply simp
        done
    qed
    done
qed


lemma sc_pack_rule:
  assumes a: "A out m w" and nf: "\<not> faulty" and src: "lent j = Some (concat cells)" and ok: "cells_ok wd cells"
    and wd: "unat width = wd" and n: "unat n = length cells" "length cells * wd + 8 \<le> 2 ^ 32"
    and Q: "\<And>k w' l'. A out (m(k \<mapsto> sc_content (map cell_str cells))) w' \<Longrightarrow> m k = None \<Longrightarrow> l' = l\<lparr>sv_alt := Ptr k\<rparr> \<Longrightarrow>
      Q (of_nat (length (sc_content (map cell_str cells)))) l' w'"
  shows "wp blk (sc_pack (Ptr j) n width) Q B R l w"
proof -
  let ?p = "packed (map cell_str cells)"
  let ?L = "length ?p"
  have L: "?L + 8 \<le> 2 ^ 32" using packed_length [OF ok] n(2) by simp
  have r: "?L \<le> round8 ?L" "round8 ?L < 2 ^ 32"
    using round8_bounds [of ?L] L by (auto simp: round8_def)
  have ul: "unat (of_nat (round8 ?L) :: u32) = round8 ?L" "unat (of_nat ?L :: u32) = ?L"
    using r by (auto intro!: unat_of_nat_u32)
  have ul2: "unat (ucast (of_nat (round8 ?L) :: u32) :: size_t) = round8 ?L"
    using ul(1) r by (simp add: unsigned_ucast_eq take_bit_nat_eq_self)
  have lc: "length (sc_content (map cell_str cells)) = round8 ?L"
    using r by (simp add: sc_content_def)
  note Q' = Q [unfolded lc]
  have n': "length ([] @ cells) * wd < 2 ^ 32" using n(2) by simp
  have measure: "wp blk (sc_measure (Ptr j) width (length cells) 0 0) Q' B R l w" if "Q' (of_nat ?L) l w" for Q'
    using sc_measure_rule [OF a, where ds = "[]" and cs = cells and j = j and cum = 0 and Q = Q'] src ok wd n' that by simp
  have copy: "wp blk (sc_copy (Ptr j) (Ptr k) width (length cells) 0 0) Q' B R l' w'"
    if "A out (m(k \<mapsto> replicate (round8 ?L) 0)) w'"
      "\<And>w'. A out (m(k \<mapsto> ?p @ replicate (round8 ?L - ?L) 0)) w' \<Longrightarrow> Q' (of_nat ?L) l' w'" for Q' k l' w'
    using sc_copy_rule [where ds = "[]" and cs = cells and j = j and pre = "[]" and Q = Q' and z = "round8 ?L" and k = k and m = m and l = l' and w = w'
        and pad = "replicate (round8 ?L) 0" and B = B and R = R and blk = blk] src ok wd n' that r by simp
  show ?thesis
    unfolding sc_pack_def Let_def wp_chain n
    apply (rule measure)
    apply (simp only: round_up8_round8 [OF L] wp_simps ul2 ul)
    apply (rule mem.malloc [OF a])
      apply (simp only: ul2, use r(2) in \<open>simp add: ptrdiff_max_def\<close>)
     apply (use nf in simp)
    apply (rule mem.overwrite [where x = "[]" and z = "[]"], assumption, simp, simp, simp add: ul2 ul)
    apply (rule copy, simp only: append_Nil append_Nil2)
    apply (cases "?L < round8 ?L")
     apply (simp add: word_less_nat_alt ul wp_simps)
     apply (rule mem.overwrite [where x = ?p and z = "[]"], assumption, simp, simp, simp)
     apply (rule Q', simp add: sc_content_def, assumption, simp)
    apply (simp add: word_less_nat_alt ul wp_simps)
    apply (rule Q', simp add: sc_content_def, assumption, simp)
    done
qed

end

end
