(* ===== verification/Assign.thy ===== *)
theory Assign
  imports Set_Vec Segment
begin

text \<open>
  What \<open>set_vec\<close> puts on the wire, for numbers and logicals in any environment, for strings in a healthy
  one, since it does not survive a failing \<open>malloc\<close> there. The properties say how the request
  differs from what Rsrv.h asks for, and that the elements can be read back from it.
\<close>

section \<open>The request\<close>

lemma set_type_known:
  "set_type t iw = Some (width, xt) \<Longrightarrow> xt_known xt \<and> (xt = XT_ARRAY_STR \<longleftrightarrow> t = lit ''SC'')"
  by (auto simp: set_type_def xt_known_def xt_codes split: if_splits)

lemma dt_string_param_length: "length (dt_string_param s) \<le> length s + 12"
  using round8_bounds(2) [of "length s + 1"] by (simp add: length_dt_string_param)

definition name_fits :: "cstr \<Rightarrow> bool" where
  "name_fits s \<longleftrightarrow> length s < 2 ^ 61"

lemma name_fits_facts: "name_fits s \<Longrightarrow> cstr_fits s \<and> length (dt_string_param s) < 2 ^ 62 \<and> 4 + round8 (length s + 1) \<le> ptrdiff_max"
  using dt_string_param_length [of s] by (simp add: name_fits_def cstr_fits_def ptrdiff_max_def length_dt_string_param)

context lender
begin

lemma set_request_plain:
  assumes a: "A out m w" and l: "ev_param1 l = Null" "sv_param2 l = Null" "sv_alt l = Null"
    and s: "name_fits s" and t: "set_type t iw = Some (width, xt)" "t \<noteq> lit ''SC''"
    and d: "lent j = Some d" "unat (n * width) = c" "c \<le> length d" "c + 12 < 2 ^ 32"
    and size: "faulty \<or> length s + c + 24 < 2 ^ 31"
    and B: "\<And>st out' w' l' m'. faulty \<Longrightarrow> A out' m' w' \<Longrightarrow> frees [ev_param1 l', sv_param2 l', sv_alt l'] m' m \<Longrightarrow> st < 0 \<Longrightarrow> B st l' w'"
    and Q: "\<And>ph w' l' out'. A out' m w' \<Longrightarrow>
      out' = out @ request CMD_setSEXP (dt_string_param s @ param2_words xt n c @ take c d) \<Longrightarrow> l' = l \<Longrightarrow> Q ph l' w'"
  shows "wp blk (set_request sock (Some s) t (Ptr j) n width xt) Q B R l w"
proof -
  have lc: "length (take c d) = c" using d(3) by simp
  show ?thesis
    unfolding set_request_def wp_chain
  proof (rule prepare_param_rule [OF a l(1)], goal_cases)
    case (3 w')
    then show ?case by (intro B) (use l in auto)
  next
    case (4 s' i w')
    have "wp blk (set_finish sock t (Ptr j) n width xt (of_nat (length (dt_string_param s))) (n * width)) Q B R (l\<lparr>ev_param1 := Ptr i\<rparr>) w'"
    proof (rule set_finish_rule [where content = "take c d" and i = i and m = m and ?m2.0 = "m(i \<mapsto> dt_string_param s)" and p = "dt_string_param s" and out = out and h = "if xt = XT_ARRAY_BOOL then 12 else 8"], goal_cases)
      case (8)
      have "n * width = of_nat c" using d(2) by auto
      then show ?case unfolding lc .
    next
      case (14 m' out' w' l' Q')
      then show ?case using d t(2) by (auto simp: wp_call intro: load_lent)
    qed (use 4 l s t d size lc set_type_known [OF t(1)] name_fits_facts [OF s] dt_string_param_length [of s] in \<open>auto intro: B Q\<close>)
    then show ?case using 4 t(2) by (simp add: wp_done_with)
  qed (use s in \<open>auto dest: name_fits_facts\<close>)
qed

lemma set_request_sc:
  assumes a: "A out m w" and nf: "\<not> faulty" and l: "ev_param1 l = Null" "sv_param2 l = Null" "sv_alt l = Null"
    and s: "name_fits s" and t: "set_type (lit ''SC'') iw = Some (width, xt)"
    and d: "lent j = Some (concat cells)" "cells_ok (unat iw) cells" "unat n = length cells" "length s + length cells * unat iw + 40 < 2 ^ 31"
    and Q: "\<And>ph w' l' out' k x. A out' (m(k \<mapsto> x)) w' \<Longrightarrow> x = sc_content (map cell_str cells) \<Longrightarrow> m k = None \<Longrightarrow>
      out' = out @ request CMD_setSEXP (dt_string_param s @ param2_words XT_ARRAY_STR n (length x) @ x) \<Longrightarrow>
      l' = l\<lparr>sv_alt := Ptr k\<rparr> \<Longrightarrow> Q ph l' w'"
  shows "wp blk (set_request sock (Some s) (lit ''SC'') (Ptr j) n width xt) Q B R l w"
proof -
  let ?x = "sc_content (map cell_str cells)"
  have wx: "width = iw" "xt = XT_ARRAY_STR" using t by (auto simp: set_type_def split: if_splits)
  have cx: "length ?x < length cells * unat iw + 8"
    using packed_length [OF d(2)] round8_bounds(2) [of "length (packed (map cell_str cells))"] round8_bounds(1) [of "length (packed (map cell_str cells))"]
    by (simp add: sc_content_def)
  have ux: "unat (of_nat (length ?x) :: u32) = length ?x" using cx d(4) by (intro unat_of_nat_u32) simp
  show ?thesis
    unfolding set_request_def wp_chain wx
  proof (rule prepare_param_rule [OF a l(1)], goal_cases)
    case (4 s' i w')
    let ?l = "l\<lparr>ev_param1 := Ptr i\<rparr>" and ?m = "m(i \<mapsto> dt_string_param s)"
    show ?case
      unfolding if_P [OF refl]
    proof (rule sc_pack_rule [OF 4(2) nf d(1,2) refl d(3)], goal_cases)
      case 1
      then show ?case using d(4) by simp
    next
      case (2 k w'' l')
      note prems = 2
      show ?case
      proof (rule set_finish_rule [where content = ?x and i = i and m = m and ?m2.0 = "?m(k \<mapsto> ?x)" and p = "dt_string_param s" and out = out and h = 8], goal_cases)
        case (5)
        show ?case using prems 4 by (auto split: if_splits simp: fun_upd_twist)
      next
        case (14 m' out' w' l' Q')
        then show ?case using prems 4 by (auto simp: wp_call ux intro!: mem.load)
      next
        case (16 ph w3 l3 out3)
        have "(?m(k \<mapsto> ?x))(i := None) = m(k \<mapsto> ?x)" using 4 prems by (auto split: if_splits)
        then show ?case by (intro Q [of _ k ?x]) (use 16 4 prems l in \<open>auto split: if_splits\<close>)
      qed (use 4 prems l s t d cx nf name_fits_facts [OF s] dt_string_param_length [of s] in \<open>auto intro: Q simp: xt_known_def xt_codes\<close>)
    qed
  qed (use s nf in \<open>auto dest: name_fits_facts\<close>)
qed

end

section \<open>The whole function\<close>

text \<open>In a healthy environment, with whatever response header.\<close>

context reader
begin

lemma set_vec_plain_rule:
  assumes o: "A (enc_phdr ph @ bs) out m w" and sock: "0 \<le> sock" and s: "name_fits s" "s \<noteq> []"
    and t: "set_type t iw = Some (width, xt)" "t \<noteq> lit ''SC''"
    and d: "lent j = Some d" "unat (n * width) = c" "c \<le> length d" "length s + c + 24 < 2 ^ 31" and n: "n \<noteq> 0"
    and Q: "\<And>w' st. A bs (out @ request CMD_setSEXP (dt_string_param s @ param2_words xt n c @ take c d)) m w' \<Longrightarrow>
      st = (if len ph = 0 then 0 else -1) \<Longrightarrow> Q st w'"
  shows "runs blk (set_vec sock (Some s) (Some t) (Ptr j) n iw w) Q"
proof -
  have ns: "\<not> sock < 0" "t \<noteq> []" using sock t by (auto simp: set_type_def)
  show ?thesis
    unfolding set_vec_def
    apply (simp add: wp_simps ns s t n)
    apply (rule snd.set_request_plain [OF o _ _ _ s(1) t d(1,2,3)])
         apply (use d(4) in simp_all)
    apply (rule read_hdr_rule, assumption, rule sock)
    apply (simp add: wp_simps)
    apply (intro conjI impI; rule Q, assumption, simp)
    done
qed

lemma set_vec_sc_rule:
  assumes o: "A (enc_phdr ph @ bs) out m w" and sock: "0 \<le> sock" and s: "name_fits s" "s \<noteq> []"
    and d: "lent j = Some (concat cells)" "cells_ok (unat iw) cells" "unat n = length cells" 
      "length s + length cells * unat iw + 40 < 2 ^ 31" and n: "n \<noteq> 0" "iw \<noteq> 0"
    and Q: "\<And>w' x st. A bs (out @ request CMD_setSEXP (dt_string_param s @ param2_words XT_ARRAY_STR n (length x) @ x)) m w' \<Longrightarrow>
      x = sc_content (map cell_str cells) \<Longrightarrow> st = (if len ph = 0 then 0 else -1) \<Longrightarrow> Q st w'"
  shows "runs blk (set_vec sock (Some s) (Some (lit ''SC'')) (Ptr j) n iw w) Q"
proof -
  have ns: "\<not> sock < 0" using sock by simp
  have t: "set_type (lit ''SC'') iw = Some (iw, XT_ARRAY_STR)" using n by (simp add: set_type_def)
  have l: "lit ''SC'' \<noteq> []" by (simp add: lit_def)
  show ?thesis
    unfolding set_vec_def
    apply (simp add: wp_simps ns s n t l del: list.map)
    apply (rule snd.set_request_sc [OF o _ _ _ _ s(1) t d(1,2,3)])
         apply (use d(4) in simp_all)
    apply (rule read_hdr_rule, assumption, rule sock)
    apply (simp add: wp_simps)
    apply (intro conjI impI; rule snd.mem.free, assumption, simp, rule Q, simp, simp, simp)
    done
qed

end

lemma runs_set_vec_any:
  assumes s: "since sock w0 Map.empty w" and b: "\<not> blk \<longrightarrow> closes sock w0"
    and fits: "\<And>s. name = Some s \<Longrightarrow> name_fits s"
    and t: "qtype \<noteq> Some (lit ''SC'')"
    and d: "data \<noteq> Null \<Longrightarrow> \<exists>j d. data = Ptr j \<and> older w0 j = Some d \<and>
      (\<forall>t width xt. qtype = Some t \<longrightarrow> set_type t iw = Some (width, xt) \<longrightarrow> unat (n * width) \<le> length d \<and> unat (n * width) + 12 < 2 ^ 32)"
    and Q: "\<And>st w'. since sock w0 Map.empty w' \<Longrightarrow> st \<le> 0 \<Longrightarrow> Q st w'"
  shows "runs blk (set_vec sock name qtype data n iw w) Q"
proof (cases "0 \<le> sock \<and> name \<noteq> None \<and> name \<noteq> Some [] \<and> qtype \<noteq> None \<and> qtype \<noteq> Some [] \<and> data \<noteq> Null \<and> n \<noteq> 0 \<and> set_type (the qtype) iw \<noteq> None")
  case False
  then show ?thesis
    using Q [OF s] by (auto simp: set_vec_def wp_simps split: option.split)
next
  case True
  then obtain nm t where "name = Some nm" "qtype = Some t" by blast
  moreover from this True obtain width xt where "set_type t iw = Some (width, xt)" "data \<noteq> Null" by fastforce
  ultimately have v1: "name = Some nm" "qtype = Some t" "set_type t iw = Some (width, xt)" "data \<noteq> Null" by blast+
  with d obtain j d' where "data = Ptr j"
    "older w0 j = Some d'" "unat (n * width) \<le> length d'" "unat (n * width) + 12 < 2 ^ 32" by blast
  note v = v1(1-3) this
  have ns: "\<not> sock < 0" "nm \<noteq> []" "t \<noteq> []" "n \<noteq> 0" using True v by auto
  have B: "runs blk (free_all [ev_param1 l', sv_param2 l', sv_alt l'] w') (\<lambda>_ w'. Q st w')"
    if "since sock w0 m' w'" "frees [ev_param1 l', sv_param2 l', sv_alt l'] m' Map.empty" "st \<le> 0" for l' w' m' st
    by (rule any_env.free_frees [OF that(1,2)]) (use Q that in auto)
  show ?thesis
    unfolding set_vec_def v option.case
    apply (simp add: wp_simps ns v del: free_all.simps)
    apply (rule any_lender.set_request_plain [OF s _ _ _ fits [OF v(1)] v(3) _ v(5) refl v(6,7)])
         apply (use t v in \<open>simp_all add: wp_simps del: free_all.simps frees.simps\<close>)
     apply (rule B, assumption, assumption, simp)
    apply (rule runs_read_hdr, assumption, rule b)
    apply (auto simp: wp_simps runs_obind intro!: Q)
    done
qed

section \<open>Reading strings back\<close>

lemma nul_strings_content: "list_all no_nul ss \<Longrightarrow> nul_strings [] (sc_content ss) = ss"
  by (simp add: sc_content_def nul_strings_packed nul_strings_tail)

lemma no_nul_cell_str: "no_nul (cell_str c)"
  by (auto simp: no_nul_def cell_str_def dest: set_takeWhileD)

lemma param2_words_sexp:
  "xt \<noteq> XT_ARRAY_BOOL \<Longrightarrow> param2_words xt n (length x) @ x = le32 (SET_PAR DT_SEXP (of_nat (length (sexp xt x) + 4))) @ sexp xt x"
  by (simp add: param2_words_def sexp_def)

lemma param2_words_bool:
  "param2_words XT_ARRAY_BOOL n (length x) @ x =
     le32 (SET_PAR DT_SEXP (of_nat (length x + 12))) @ le32 (SET_PAR XT_ARRAY_BOOL (of_nat (length x + 12))) @ le32 n @ x"
  by (simp add: param2_words_def add.commute)

section \<open>Example worlds\<close>

text \<open>The caller's array is block 0.\<close>

definition lending_world :: "byte list \<Rightarrow> byte list list \<Rightarrow> world" where
  "lending_world d segments = (peer_world segments)\<lparr>heap := [0 \<mapsto> d], next_id := 1\<rparr>"

lemma lending_world_simps [simp]:
  "wf_heap (lending_world d segs)" "heap (lending_world d segs) = [0 \<mapsto> d]" "closes 3 (lending_world d segs)"
  "serves 3 reply [] (lending_world d [reply])"
  by (simp_all add: lending_world_def peer_world_def peer_conn_def wf_heap_def closes_def serves_def healthy_def pending_def)

definition answer_hdr :: phdr where
  "answer_hdr = \<lparr>cmd = RESP_OK, len = 0, msg_id = 0, res = 0\<rparr>"

lemma len_answer_hdr [simp]: "len answer_hdr = 0"
  by (simp add: answer_hdr_def)

section \<open>Properties\<close>

text \<open>C18. Numbers and logicals, in any environment: \<open>set_vec\<close> does nothing undefined as long as the caller's array
  has \<open>n*width\<close> bytes and the 32-bit sums do not wrap, it leaves the heap as it was, and can only wait for a
  peer that neither closes nor is subject to a timeout.\<close>

theorem set_vec_safe:
  assumes "wf_heap w" and "\<And>s. name = Some s \<Longrightarrow> name_fits s" and "qtype \<noteq> Some (lit ''SC'')"
    and "data \<noteq> Null \<Longrightarrow> \<exists>j d. data = Ptr j \<and> heap w j = Some d \<and>
      (\<forall>t width xt. qtype = Some t \<longrightarrow> set_type t in_width = Some (width, xt) \<longrightarrow>
         unat (n * width) \<le> length d \<and> unat (n * width) + 12 < 2 ^ 32)"
  shows "runs (\<not> closes sock w) (set_vec sock name qtype data n in_width w) (\<lambda>st w'. st \<le> 0 \<and> heap w' = heap w)"
  by (rule runs_set_vec_any [OF since_start [OF assms(1)] _ assms(2,3)])
    (use assms(4) since_heap [OF assms(1)] in \<open>auto simp: older_wf [OF assms(1)]\<close>)

theorem set_vec_safe_witness:
  "\<exists>st w'. set_vec 3 (Some (lit ''x'')) (Some (lit ''I4'')) (Ptr 0) 1 0 (lending_world [1, 0, 0, 0] [[7], [8, 9]]) = Done st w' \<and> st \<le> 0"
proof -
  let ?w = "lending_world [1, 0, 0, 0] [[7], [8, 9]]"
  have "runs (\<not> closes 3 ?w) (set_vec 3 (Some (lit ''x'')) (Some (lit ''I4'')) (Ptr 0) 1 0 ?w) (\<lambda>st w'. st \<le> 0 \<and> heap w' = heap ?w)"
    by (rule set_vec_safe) (auto simp: name_fits_def set_type_def split: if_splits)
  then show ?thesis by (auto dest!: runs_total)
qed

text \<open>Rejected arguments: nothing is sent or allocated.\<close>

theorem set_vec_rejects:
  assumes "sock < 0 \<or> name = None \<or> name = Some [] \<or> qtype = None \<or> data = Null \<or> n = 0 \<or>
    Option.bind qtype (\<lambda>t. set_type t in_width) = None"
  shows "set_vec sock name qtype data n in_width w = Done (-1) w"
  using assms by (cases name; cases qtype) (auto simp: set_vec_def proc_def exec_chain sys_free_def)

theorem set_vec_rejects_witness: "set_vec 3 (Some (lit ''x'')) (Some (lit ''SC'')) (Ptr 0) 4 0 (lending_world [] []) = Done (-1) (lending_world [] [])"
  by (rule set_vec_rejects) (simp add: set_type_def)

text \<open>C19. Doubles: the request carries exactly the caller's array as one \<open>XT_ARRAY_DOUBLE\<close> expression. Its \<open>DT_SEXP\<close>
  word counts itself, four bytes more than there are.\<close>

theorem set_vec_F8_sends:
  assumes "serves sock (enc_phdr ph) rest w" and "heap w j = Some (array le64 vs)" and "vs \<noteq> []"
    and "name \<noteq> []" and "length name + 8 * length vs + 24 < 2 ^ 31"
    and "x = sexp XT_ARRAY_DOUBLE (array le64 vs)"
  shows "\<exists>w'. set_vec sock (Some name) (Some (lit ''F8'')) (Ptr j) (of_nat (length vs)) in_width w =
      Done (if len ph = 0 then 0 else -1) w' \<and>
    served sock (request CMD_setSEXP (dt_string_param name @ le32 (SET_PAR DT_SEXP (of_nat (length x + 4))) @ x)) rest w w'"
proof (rule runs_Done_ex)
  let ?d = "array le64 vs"
  have wf: "wf_heap w" "0 \<le> sock" using assms(1) by (simp_all add: serves_def)
  have ld: "length ?d = 8 * length vs" by (rule double_elt.length_array)
  have u: "unat (of_nat (length vs) * 8 :: u32) = length ?d"
    using assms(5) unat_of_nat_u32 [of "length vs * 8"] by (simp add: ld mult.commute)
  have n: "of_nat (length vs) \<noteq> (0 :: u32)"
  proof -
    have "unat (of_nat (length vs) :: u32) = length vs" using assms(5) by (intro unat_of_nat_u32) simp
    then show ?thesis using assms(3) by auto
  qed
  have bs: "take (length ?d) ?d = ?d" by simp
  show "runs False (set_vec sock (Some name) (Some (lit ''F8'')) (Ptr j) (of_nat (length vs)) in_width w)
    (\<lambda>r w'. r = (if len ph = 0 then 0 else -1) \<and>
      served sock (request CMD_setSEXP (dt_string_param name @ le32 (SET_PAR DT_SEXP (of_nat (length x + 4))) @ x)) rest w w')"
    by (rule online_reader.set_vec_plain_rule [OF servesD [OF assms(1)] wf(2), where width = 8 and xt = XT_ARRAY_DOUBLE and c = "length ?d" and d = ?d])
      (use assms(2-6) u ld n param2_words_sexp [of XT_ARRAY_DOUBLE "of_nat (length vs)" ?d] servedI [OF wf(1)] in
        \<open>simp_all add: name_fits_def set_type_def older_wf [OF wf(1)] xt_codes\<close>)
qed

theorem set_vec_F8_sends_witness:
  "\<exists>w'. set_vec 3 (Some (lit ''x'')) (Some (lit ''F8'')) (Ptr 0) 2 0 (lending_world (array le64 [5, 7]) [enc_phdr answer_hdr]) = Done 0 w'"
  using set_vec_F8_sends [of 3 answer_hdr "[]" "lending_world (array le64 [5, 7]) [enc_phdr answer_hdr]" 0 "[5, 7]" "lit ''x''", OF _ _ _ _ _ refl]
  by auto

text \<open>Logicals: the count precedes the bytes, which are not padded, and both length words are too large by eight
  and more, since they count themselves and each other.\<close>

theorem set_vec_I1_sends:
  assumes "serves sock (enc_phdr ph) rest w" and "heap w j = Some bs" and "bs \<noteq> []"
    and "name \<noteq> []" and "length name + length bs + 24 < 2 ^ 31"
    and "y = le32 (of_nat (length bs)) @ bs"
  shows "\<exists>w'. set_vec sock (Some name) (Some (lit ''I1'')) (Ptr j) (of_nat (length bs)) in_width w =
      Done (if len ph = 0 then 0 else -1) w' \<and>
    served sock (request CMD_setSEXP (dt_string_param name @
      le32 (SET_PAR DT_SEXP (of_nat (length y + 8))) @ le32 (SET_PAR XT_ARRAY_BOOL (of_nat (length y + 8))) @ y)) rest w w'"
proof (rule runs_Done_ex)
  have wf: "wf_heap w" "0 \<le> sock" using assms(1) by (simp_all add: serves_def)
  have u: "unat (of_nat (length bs) * 1 :: u32) = length bs"
    using assms(5) unat_of_nat_u32 [of "length bs"] by simp
  then have n: "of_nat (length bs) \<noteq> (0 :: u32)" using assms(3) by auto
  show "runs False (set_vec sock (Some name) (Some (lit ''I1'')) (Ptr j) (of_nat (length bs)) in_width w)
    (\<lambda>r w'. r = (if len ph = 0 then 0 else -1) \<and>
      served sock (request CMD_setSEXP (dt_string_param name @
      le32 (SET_PAR DT_SEXP (of_nat (length y + 8))) @ le32 (SET_PAR XT_ARRAY_BOOL (of_nat (length y + 8))) @ y)) rest w w')"
    by (rule online_reader.set_vec_plain_rule [OF servesD [OF assms(1)] wf(2), where width = 1 and xt = XT_ARRAY_BOOL and c = "length bs" and d = bs])
      (use assms(2-6) u n param2_words_bool [of "of_nat (length bs)" bs] servedI [OF wf(1)] in
        \<open>simp_all add: name_fits_def set_type_def older_wf [OF wf(1)] add.commute\<close>)
qed

theorem set_vec_I1_sends_witness:
  "\<exists>w'. set_vec 3 (Some (lit ''b'')) (Some (lit ''I1'')) (Ptr 0) 1 0 (lending_world [1] [enc_phdr answer_hdr]) = Done 0 w'"
  using set_vec_I1_sends [of 3 answer_hdr "[]" "lending_world [1] [enc_phdr answer_hdr]" 0 "[1]" "lit ''b''", OF _ _ _ _ _ refl]
  by auto

text \<open>C20. Strings of fixed width are packed with their NULs and filled up with \<open>X\<close> to a multiple of eight: a reader
  of NUL-terminated strings gets exactly the strings back.\<close>

theorem set_vec_SC_sends:
  assumes "serves sock (enc_phdr ph) rest w" and "heap w j = Some (concat cells)" and "cells \<noteq> []"
    and "cells_ok (unat in_width) cells" and "name \<noteq> []" and "length name + length cells * unat in_width + 40 < 2 ^ 31"
  shows "\<exists>w' x. set_vec sock (Some name) (Some (lit ''SC'')) (Ptr j) (of_nat (length cells)) in_width w =
      Done (if len ph = 0 then 0 else -1) w' \<and>
    nul_strings [] x = map cell_str cells \<and>
    served sock (request CMD_setSEXP (dt_string_param name @ le32 (SET_PAR DT_SEXP (of_nat (length x + 8))) @
      sexp XT_ARRAY_STR x)) rest w w'"
proof -
  have wf: "wf_heap w" "0 \<le> sock" using assms(1) by (simp_all add: serves_def)
  let ?x = "sc_content (map cell_str cells)"
  obtain c where "c \<in> set cells" using assms(3) by (cases cells) auto
  then have iw: "in_width \<noteq> 0" using assms(4) by (force simp: cells_ok_def)
  then have "0 < unat in_width" by (simp add: unat_gt_0)
  then have lc: "length cells \<le> length cells * unat in_width" by simp
  have u: "unat (of_nat (length cells) :: u32) = length cells"
    by (rule unat_of_nat_u32 [OF order_le_less_trans [OF lc]]) (use assms(6) in simp)
  then have n: "of_nat (length cells) \<noteq> (0 :: u32)" using assms(3) by auto
  have "runs False (set_vec sock (Some name) (Some (lit ''SC'')) (Ptr j) (of_nat (length cells)) in_width w)
    (\<lambda>r w'. r = (if len ph = 0 then 0 else -1) \<and>
      served sock (request CMD_setSEXP (dt_string_param name @ param2_words XT_ARRAY_STR (of_nat (length cells)) (length ?x) @ ?x)) rest w w')"
    by (rule online_reader.set_vec_sc_rule [OF servesD [OF assms(1)] wf(2), where cells = cells])
      (use assms(2-6) u n iw servedI [OF wf(1)] in \<open>simp_all add: name_fits_def older_wf [OF wf(1)]\<close>)
  moreover have "nul_strings [] ?x = map cell_str cells"
    by (rule nul_strings_content) (simp add: list_all_iff no_nul_cell_str)
  moreover have "param2_words XT_ARRAY_STR (of_nat (length cells)) (length ?x) @ ?x =
      le32 (SET_PAR DT_SEXP (of_nat (length ?x + 8))) @ sexp XT_ARRAY_STR ?x"
    using param2_words_sexp [of XT_ARRAY_STR "of_nat (length cells)" ?x] by (simp add: xt_codes sexp_def add.commute)
  ultimately show ?thesis by (auto dest!: runs_Done_ex)
qed

theorem set_vec_SC_sends_witness:
  "\<exists>w'. set_vec 3 (Some (lit ''s'')) (Some (lit ''SC'')) (Ptr 0) 2 3
     (lending_world [97, 98, 0, 99, 0, 0xA5] [enc_phdr answer_hdr]) = Done 0 w'"
  using set_vec_SC_sends [of 3 answer_hdr "[]" "lending_world [97, 98, 0, 99, 0, 0xA5] [enc_phdr answer_hdr]" 0
      "[[97, 98, 0], [99, 0, 0xA5]]" 3 "lit ''s''"]
  by auto



text \<open>The block for packed strings is written to without a check: a failing \<open>malloc\<close> is a null dereference.\<close>

theorem sc_pack_out_of_memory:
  assumes "wf_heap w" and "heap w j = Some (concat cells)" and "cells_ok (unat width) cells"
    and "unat n = length cells" and "length cells * unat width + 8 \<le> 2 ^ 32" and "mallocs w = False # ms"
  shows "(sc_pack (Ptr j) n width :: (u32, int, set_vars, world) cmd) (l, w) = Fault Null_deref"
proof -
  have src: "older w j = Some (concat cells)" using assms(1,2) by (simp add: older_wf)
  have "wp False (sc_measure (Ptr j) width (length cells) (of_nat (length ([] :: byte list list))) 0 :: (u32, int, set_vars, world) cmd)
      (\<lambda>a l' w'. l' = l \<and> w' = w) (\<lambda>_ _ _. False) (\<lambda>_ _ _. False) l w"
    by (rule any_lender.sc_measure_rule [OF since_start [OF assms(1)], where cs = cells and ds = "[]" and wd = "unat width"])
      (use src assms(3,5) in simp_all)
  then obtain a where "(sc_measure (Ptr j) width (length cells) 0 0 :: (u32, int, set_vars, world) cmd) (l, w) = Val a (l, w)" by (auto dest!: wp_Val)
  then show ?thesis
    by (simp add: sc_pack_def exec_chain assms(4,6) Let_def sys_malloc_def store_def)
qed

theorem sc_pack_out_of_memory_witness:
  "(sc_pack (Ptr 0) 1 2 :: (u32, int, set_vars, world) cmd) (\<lparr>ev_param1 = Null, sv_param2 = Null, sv_alt = Null\<rparr>,
     (lending_world [97, 0] [])\<lparr>mallocs := [False]\<rparr>) = Fault Null_deref"
  using sc_pack_out_of_memory [of "(lending_world [97, 0] [])\<lparr>mallocs := [False]\<rparr>" 0 "[[97, 0]]" 2 1 "[]"]
  by (simp add: wf_heap_def lending_world_def)

end
