(* ===== verification/Get_Named_Vec.thy ===== *)
theory Get_Named_Vec
  imports Rpc Arrays
begin

text \<open>
  \<open>get_named_vec_F8\<close> of src/get_named_vec.c: a vector of doubles with names, read into two arrays of the
  caller, whose sizes the caller passes. The arrays are part of the function's state here: their
  contents go in with the arguments and come back with the result, and every store into them checks
  their real length.
\<close>

section \<open>The function\<close>

record named_vars = param_vars +
  nv_keys :: "byte list"
  nv_vals :: "byte list"
  nv_out :: "(u32 \<times> u32) option"

text \<open>Bytes stored from the start of an array on.\<close>

definition overlay :: "byte list \<Rightarrow> byte list \<Rightarrow> byte list" where
  "overlay bs buf = bs @ drop (length bs) buf"

text \<open>\<open>memset(arr, 0, n)\<close> on an array of the caller.\<close>

definition clear_array :: "byte list option \<Rightarrow> u32 \<Rightarrow> (byte list, 'r, named_vars, world) cmd" where
  "clear_array arr n = (case arr of
       None \<Rightarrow> fault Null_deref
     | Some buf \<Rightarrow> if length buf < unat n then fault Out_of_bounds
                  else done_with (overlay (replicate (unat n) 0) buf))"

text \<open>Lines 38 to 56: the arrays are cleared, the request is sent, the response header is read.\<close>

definition named_request ::
    "int \<Rightarrow> cstr option \<Rightarrow> byte list option \<Rightarrow> u32 \<Rightarrow> byte list option \<Rightarrow> u32 \<Rightarrow> (phdr, 'r, named_vars, world) cmd" where
  "named_request sock name key_blob sz_key_blob vals sz_vals =
     chain (prepare_param name) (\<lambda>len_param1.
     chain (clear_array key_blob sz_key_blob) (\<lambda>keys.
     chain (upd_loc (\<lambda>l. l\<lparr>nv_keys := keys\<rparr>)) (\<lambda>_.
     chain (clear_array vals sz_vals) (\<lambda>vals.
     chain (upd_loc (\<lambda>l. l\<lparr>nv_vals := vals\<rparr>)) (\<lambda>_.
     chain (send_request sock (lit ''CMD_eval'') len_param1) (\<lambda>_.
     chain (call (get_buf_from_sock sock (Some HDR_LEN) (int HDR_LEN))) (\<lambda>(status, ph, nr).
     chain (cBYE status) (\<lambda>_.
     done_with (dec_phdr ph)))))))))"

text \<open>Lines 57 to 80: the four words before the keys; the value is the length of the keys.\<close>

definition named_head :: "int \<Rightarrow> int \<Rightarrow> u32 \<Rightarrow> (u32, 'r, named_vars, world) cmd" where
  "named_head sock n1 sz_key_blob =
     chain (bye_when (n1 = 0) (-1)) (\<lambda>_.
     chain (call (get_buf_from_sock sock (Some HDR_LEN) (int HDR_LEN))) (\<lambda>(status, hdr, nr).
     chain (cBYE status) (\<lambda>_.
     chain (bye_when (u32_at hdr 0 AND 0xFF \<noteq> DT_SEXP) (-1)) (\<lambda>_.
     let n2 = to_int (drop_bit 8 (u32_at hdr 0) - 12) in
     chain (bye_when (to_int (size_of_int n1 - of_nat HDR_LEN) \<noteq> n2) (-1)) (\<lambda>_.
     chain (bye_when (u32_at hdr 2 AND 0xFF \<noteq> XT_LIST_TAG) (-1)) (\<lambda>_.
     chain (bye_when (u32_at hdr 3 AND 0xFF \<noteq> XT_ARRAY_STR) (-1)) (\<lambda>_.
     let l_sz_key_blob = drop_bit 8 (u32_at hdr 3) in
     chain (bye_when (sz_key_blob \<le> l_sz_key_blob) (-1)) (\<lambda>_.
     done_with l_sz_key_blob))))))))"

text \<open>Lines 83 to 119: the keys, whose NULs say how many values there are, twelve bytes that are skipped
  (the symbol \<open>names\<close>), and the values.\<close>

definition named_data :: "int \<Rightarrow> u32 \<Rightarrow> u32 \<Rightarrow> (int, 'r, named_vars, world) cmd" where
  "named_data sock l_sz_key_blob sz_vals =
     chain (get_loc nv_keys) (\<lambda>keys.
     chain (call (get_buf_from_sock sock (Some (length keys)) (to_int l_sz_key_blob))) (\<lambda>(status, bs, nr).
     chain (upd_loc (\<lambda>l. l\<lparr>nv_keys := overlay bs keys\<rparr>)) (\<lambda>_.
     chain (cBYE status) (\<lambda>_.
     let chk_n_vals = length (filter (\<lambda>b. b = 0) (take (unat l_sz_key_blob) (overlay bs keys))) in
     chain (call (get_buf_from_sock sock (Some HDR_LEN) 12)) (\<lambda>(status, hdr, nr).
     chain (cBYE status) (\<lambda>_.
     let n_vals = of_nat chk_n_vals :: u32; l_sz_vals = n_vals * 8 in
     chain (bye_when (sz_vals \<le> n_vals) (-1)) (\<lambda>_.
     chain (get_loc nv_vals) (\<lambda>vals.
     chain (call (get_buf_from_sock sock (Some (length vals)) (to_int l_sz_vals))) (\<lambda>(status, bs, nr).
     chain (upd_loc (\<lambda>l. l\<lparr>nv_vals := overlay bs vals\<rparr>)) (\<lambda>_.
     chain (cBYE status) (\<lambda>_.
     chain (upd_loc (\<lambda>l. l\<lparr>nv_out := Some (n_vals, l_sz_key_blob)\<rparr>)) (\<lambda>_.
     done_with status))))))))))))"

text \<open>The result: the status, the contents of the two arrays, and what is stored through \<open>ptr_n_vals\<close> and
  \<open>ptr_n_key_blob\<close>, if anything.\<close>

definition get_named_vec_F8 ::
    "int \<Rightarrow> cstr option \<Rightarrow> byte list option \<Rightarrow> u32 \<Rightarrow> byte list option \<Rightarrow> u32 \<Rightarrow> world
      \<Rightarrow> (int \<times> byte list \<times> byte list \<times> (u32 \<times> u32) option, world) outcome" where
  "get_named_vec_F8 sock name key_blob sz_key_blob vals sz_vals =
     proc \<lparr>ev_param1 = Null, nv_keys = (case key_blob of None \<Rightarrow> [] | Some b \<Rightarrow> b),
           nv_vals = (case vals of None \<Rightarrow> [] | Some b \<Rightarrow> b), nv_out = None\<rparr>
       (chain (named_request sock name key_blob sz_key_blob vals sz_vals) (\<lambda>ph.
        chain (named_head sock (sint (len ph)) sz_key_blob) (\<lambda>l_sz_key_blob.
        named_data sock l_sz_key_blob sz_vals)))
       (\<lambda>status l w. obind (free_all [ev_param1 l] w) (\<lambda>_ w'.
          Done (status, nv_keys l, nv_vals l, nv_out l) w'))"

section \<open>What a named vector looks like\<close>

text \<open>A vector with attributes, from the list of XT codes in Rsrv.h: the type carries \<open>XT_HAS_ATTR\<close>, the attribute,
  a tagged list of the names under the symbol \<open>names\<close>, comes before the elements.\<close>

definition names_attr :: "cstr list \<Rightarrow> byte list" where
  "names_attr ks = sexp XT_LIST_TAG (sexp XT_ARRAY_STR (str_array ks) @ sexp XT_SYMNAME (lit ''names'' @ [0, 0, 0]))"

definition named_vector :: "cstr list \<Rightarrow> u64 list \<Rightarrow> byte list" where
  "named_vector ks vs = sexp (XT_ARRAY_DOUBLE OR XT_HAS_ATTR) (names_attr ks @ array le64 vs)"

definition named_reply :: "cstr list \<Rightarrow> u64 list \<Rightarrow> byte list" where
  "named_reply ks vs = response RESP_OK (dt_sexp_param (named_vector ks vs))"

section \<open>Rules\<close>


lemma length_overlay [simp]: "length (overlay bs buf) = max (length bs) (length buf)"
  by (simp add: overlay_def)

lemma take_overlay [simp]: "take (length bs) (overlay bs buf) = bs"
  by (simp add: overlay_def)

definition named_words :: "nat \<Rightarrow> nat \<Rightarrow> byte list" where
  "named_words L n = le32 (SET_PAR DT_SEXP (of_nat (L + 24 + 8 * n))) @
     le32 (SET_PAR (XT_ARRAY_DOUBLE OR XT_HAS_ATTR) (of_nat (L + 20 + 8 * n))) @
     le32 (SET_PAR XT_LIST_TAG (of_nat (L + 16))) @ le32 (SET_PAR XT_ARRAY_STR (of_nat L))"

lemma length_named_words [simp]: "length (named_words L n) = 16"
  by (simp add: named_words_def)

lemma named_reply_parts:
  "named_reply ks vs = enc_phdr \<lparr>cmd = RESP_OK, len = of_nat (length (str_array ks) + 28 + 8 * length vs), msg_id = 0, res = 0\<rparr> @
     named_words (length (str_array ks)) (length vs) @ str_array ks @ sexp XT_SYMNAME (lit ''names'' @ [0, 0, 0]) @ array le64 vs"
  by (simp add: named_reply_def response_def dt_sexp_param_def named_vector_def names_attr_def sexp_def named_words_def
      double_elt.length_array ac_simps)

lemma named_words_at:
  assumes "L + 24 + 8 * n < 2 ^ 24"
  shows "u32_at (named_words L n) 0 AND 0xFF = DT_SEXP" "drop_bit 8 (u32_at (named_words L n) 0) = of_nat (L + 24 + 8 * n)"
    "u32_at (named_words L n) 2 AND 0xFF = XT_LIST_TAG" "u32_at (named_words L n) 3 AND 0xFF = XT_ARRAY_STR"
    "drop_bit 8 (u32_at (named_words L n) 3) = of_nat L"
  using header_word(1) [of DT_SEXP] header_word(1) [of XT_LIST_TAG] header_word(1) [of XT_ARRAY_STR]
    header_word(2) [OF assms, of DT_SEXP] header_word(2) [of L XT_ARRAY_STR] assms
  by (simp_all add: named_words_def layout_simps xt_codes dt_codes)

lemma named_head_rule:
  assumes o: "online sock w0 m (named_words L n @ bs) out w" and sock: "0 \<le> sock"
    and L: "L + 28 + 8 * n < 2 ^ 24" "L < unat sz" and n1: "n1 = int (L + 28 + 8 * n)"
    and Q: "\<And>w'. online sock w0 m bs out w' \<Longrightarrow> Q (of_nat L) l w'"
  shows "wp blk (named_head sock n1 sz) Q B R l w"
proof -
  have n2: "(of_nat (L + 24 + 8 * n) :: u32) - 12 = of_nat (L + 12 + 8 * n)"
    by simp
  have n3: "size_of_int n1 - of_nat HDR_LEN = of_nat (L + 12 + 8 * n)"
    unfolding n1 HDR_LEN_def size_of_int_of_nat by simp
  have eq: "to_int (of_nat (L + 12 + 8 * n) :: u32) = int (L + 12 + 8 * n)"
    "to_int (of_nat (L + 12 + 8 * n) :: size_t) = int (L + 12 + 8 * n)"
    using L by (intro to_int_of_nat; simp)+
  have sz: "\<not> sz \<le> of_nat L" using L by (simp add: word_le_nat_alt unat_of_nat_u32)
  have L': "L + 24 + 8 * n < 2 ^ 24" using L by simp
  have w: "take (nat (int 16)) (named_words L n @ bs) = named_words L n" "drop (nat (int 16)) (named_words L n @ bs) = bs"
    by simp_all
  have nz: "(int (L + 28 + 8 * n) = 0) = False" by simp
  show ?thesis
    unfolding named_head_def wp_simps Let_def n1 nz if_False HDR_LEN_def
    apply (rule runs_get_buf_online [OF o])
        apply (simp_all add: sock)[4]
    apply (simp only: w prod.case wp_simps less_irrefl if_False named_words_at [OF L'] simp_thms n2 eq sz
       n3 [unfolded n1 HDR_LEN_def])
    apply (erule Q)
    done
qed

lemma named_data_rule:
  assumes o: "online sock w0 m (str_array ks @ twelve @ array le64 vs @ bs) out w" and sock: "0 \<le> sock"
    and ks: "list_all no_nul ks" "length ks = length vs" "vs \<noteq> []" and t: "length twelve = 12"
    and L: "length (str_array ks) + 28 + 8 * length vs < 2 ^ 24" "length (str_array ks) \<le> length (nv_keys l)"
    and Lv: "8 * length vs \<le> length (nv_vals l)"
    and F: "\<And>w' l'. online sock w0 m (array le64 vs @ bs) out w' \<Longrightarrow> unat sz_vals \<le> length vs \<Longrightarrow>
      l' = l\<lparr>nv_keys := overlay (str_array ks) (nv_keys l)\<rparr> \<Longrightarrow> B (-1) l' w'"
    and Q: "\<And>w' l'. online sock w0 m bs out w' \<Longrightarrow> length vs < unat sz_vals \<Longrightarrow>
      l' = l\<lparr>nv_keys := overlay (str_array ks) (nv_keys l), nv_vals := overlay (array le64 vs) (nv_vals l),
             nv_out := Some (of_nat (length vs), of_nat (length (str_array ks)))\<rparr> \<Longrightarrow> Q 0 l' w'"
  shows "wp blk (named_data sock (of_nat (length (str_array ks))) sz_vals) Q B R l w"
proof -
  let ?L = "length (str_array ks)"
  have i: "to_int (of_nat ?L :: u32) = int ?L" "to_int (of_nat (length vs) * 8 :: u32) = int (8 * length vs)"
    "unat (of_nat ?L :: u32) = ?L" "unat (of_nat (length vs) :: u32) = length vs"
    using L to_int_of_nat [where 'a = 32, of "length vs * 8"]
    by (auto simp: unat_of_nat_u32 to_int_of_nat mult.commute)
  obtain k0 kr where "ks = k0 # kr" using ks by (cases ks) auto
  then have pos: "0 < ?L" by (simp add: str_array_def pad4_def)
  have count: "length (filter (\<lambda>b. b = 0) (str_array ks)) = length vs"
  proof -
    have "length (filter (\<lambda>b. b = 0) k) = 0" if "no_nul k" for k
      using that by (auto simp: no_nul_def filter_empty_conv)
    then have "length (filter (\<lambda>b. b = 0) (concat (map (\<lambda>s. s @ [0]) ks))) = length ks"
      using ks(1) by (induction ks) auto
    then show ?thesis using ks(2) by (simp add: str_array_def pad4_def)
  qed
  have w: "take (nat (int ?L)) (str_array ks @ twelve @ array le64 vs @ bs) = str_array ks"
    "drop (nat (int ?L)) (str_array ks @ twelve @ array le64 vs @ bs) = twelve @ array le64 vs @ bs"
    "drop (nat 12) (twelve @ array le64 vs @ bs) = array le64 vs @ bs"
    "take (nat (int (8 * length vs))) (array le64 vs @ bs) = array le64 vs"
    "drop (nat (int (8 * length vs))) (array le64 vs @ bs) = bs"
    by (simp_all add: t double_elt.length_array)
  show ?thesis
    unfolding named_data_def wp_simps Let_def i
    apply (rule runs_get_buf_online [OF o])
        apply (use pos L sock in simp_all)[4]
    apply (simp only: w prod.case wp_simps less_irrefl if_False take_overlay count)
    apply (rule runs_get_buf_online, assumption)
        apply (use sock t in \<open>simp_all add: HDR_LEN_def\<close>)[4]
    apply (simp only: w prod.case wp_simps less_irrefl if_False word_le_nat_alt i)
    apply (cases "unat sz_vals \<le> length vs"; simp only: if_True if_False)
     apply (rule F, assumption, assumption, rule refl)
    apply (rule runs_get_buf_online, assumption)
        apply (use sock ks(3) Lv in \<open>simp_all add: double_elt.length_array\<close>)[4]
    apply (simp only: w prod.case wp_simps less_irrefl if_False)
    apply (rule Q, assumption, simp, simp)
    done
qed

lemma named_request_online:
  assumes o: "online sock w0 m (enc_phdr ph @ bs) out w" and sock: "0 \<le> sock" and p: "ev_param1 l = Null"
    and fits: "fits_packet (length s)" and kb: "unat sz_k \<le> length kb" and vb: "unat sz_v \<le> length vb"
    and Q: "\<And>w' l'. online sock w0 m bs (out @ eval_request True s) w' \<Longrightarrow>
      l' = l\<lparr>nv_keys := overlay (replicate (unat sz_k) 0) kb, nv_vals := overlay (replicate (unat sz_v) 0) vb\<rparr> \<Longrightarrow> Q ph l' w'"
  shows "wp blk (named_request sock (Some s) (Some kb) sz_k (Some vb) sz_v) Q B R l w"
proof -
  let ?l = "\<lambda>l. l\<lparr>nv_keys := overlay (replicate (unat sz_k) 0) kb, nv_vals := overlay (replicate (unat sz_v) 0) vb\<rparr>"
  have c: "\<not> length kb < unat sz_k" "\<not> length vb < unat sz_v" using kb vb by simp_all
  have n: "length (dt_string_param s) < 2 ^ 31" "cstr_fits s" "4 + round8 (length s + 1) \<le> ptrdiff_max"
    using fits round8_bounds(2) [of "length s + 1"]
    by (simp_all add: length_dt_string_param fits_packet_def cstr_fits_def ptrdiff_max_def)
  show ?thesis
    unfolding named_request_def clear_array_def option.case wp_chain
  proof (rule healthy_channel.prepare_param_rule [OF o p], goal_cases)
    case (4 s' i w')
    show ?case
      apply (simp add: c wp_simps)
      apply (rule healthy_channel.send_request_rule [where b = "dt_string_param s" and m = m and i = i])
             apply (use 4 n in simp_all)
      apply (simp add: wp_simps)
      apply (rule runs_get_buf_online, assumption)
          apply (simp_all add: HDR_LEN_def sock wp_simps layout_simps)
      apply (rule Q)
      apply (simp add: eval_request_def)
      apply (use p in \<open>cases l, simp\<close>)
      done
  qed (use n in auto)
qed

text \<open>Both outcomes for a response that fits the array of keys: enough room for the values, or not.\<close>

lemma runs_named_reply:
  assumes s: "serves sock (named_reply ks vs) rest w" and fits: "fits_packet (length name)"
    and ks: "list_all no_nul ks" "length ks = length vs" "vs \<noteq> []"
    and L: "length (str_array ks) + 28 + 8 * length vs < 2 ^ 24" "length (str_array ks) < unat sz_k" "unat sz_k \<le> length kb"
    and V: "unat sz_v \<le> length vb" "8 * length vs \<le> length vb"
    and F: "\<And>w' keys vals. served sock (eval_request True name) (array le64 vs @ rest) w w' \<Longrightarrow> unat sz_v \<le> length vs \<Longrightarrow>
      Q (-1, keys, vals, None) w'"
    and P: "\<And>w' keys vals. served sock (eval_request True name) rest w w' \<Longrightarrow> length vs < unat sz_v \<Longrightarrow>
      take (length (str_array ks)) keys = str_array ks \<Longrightarrow> take (length (array le64 vs)) vals = array le64 vs \<Longrightarrow>
      Q (0, keys, vals, Some (of_nat (length vs), of_nat (length (str_array ks)))) w'"
  shows "runs blk (get_named_vec_F8 sock (Some name) (Some kb) sz_k (Some vb) sz_v w) Q"
proof -
  have wf: "wf_heap w" "0 \<le> sock" using s by (simp_all add: serves_def)
  have n1: "sint (of_nat (length (str_array ks) + 28 + 8 * length vs) :: u32) = int (length (str_array ks) + 28 + 8 * length vs)"
    using L by (intro sint_of_nat_u32) simp
  have t: "length (sexp XT_SYMNAME (lit ''names'' @ [0, 0, 0])) = 12" by (simp add: sexp_def)
  have o: "online sock w Map.empty (enc_phdr \<lparr>cmd = RESP_OK, len = of_nat (length (str_array ks) + 28 + 8 * length vs), msg_id = 0, res = 0\<rparr> @
     (named_words (length (str_array ks)) (length vs) @ str_array ks @ sexp XT_SYMNAME (lit ''names'' @ [0, 0, 0]) @ array le64 vs @ rest)) (sent sock w) w"
    using servesD [OF s] by (simp add: named_reply_parts)
  show ?thesis
    unfolding get_named_vec_F8_def wp_simps
    apply (rule named_request_online [OF o wf(2) _ fits L(3) V(1)], simp)
    apply (simp only: phdr.simps n1)
    apply (rule named_head_rule [OF _ wf(2) L(1,2) refl], assumption)
    apply (rule named_data_rule [OF _ wf(2) ks t L(1)], assumption)
       apply (use L V in simp_all)[2]
     apply (simp add: wp_simps)
     apply (rule F, erule servedI [OF wf(1)], assumption)
    apply (simp add: wp_simps)
    apply (rule P, erule servedI [OF wf(1)], assumption, simp, simp)
    done
qed

text \<open>In any environment the arrays keep their lengths and nothing but the locals changes.\<close>

definition same_arrays :: "named_vars \<Rightarrow> named_vars \<Rightarrow> bool" where
  "same_arrays l l' \<longleftrightarrow> ev_param1 l' = ev_param1 l \<and> length (nv_keys l') = length (nv_keys l) \<and>
     length (nv_vals l') = length (nv_vals l) \<and> nv_out l' = nv_out l"

lemma named_head_any:
  assumes s: "since sock w0 m w" and b: "\<not> blk \<longrightarrow> closes sock w0"
    and B: "\<And>st w'. since sock w0 m w' \<Longrightarrow> st < 0 \<Longrightarrow> B st l w'"
    and Q: "\<And>k w'. since sock w0 m w' \<Longrightarrow> k < sz_k \<Longrightarrow> Q k l w'"
  shows "wp blk (named_head sock n1 sz_k) Q B R l w"
  unfolding named_head_def wp_simps Let_def
  apply (simp add: B [OF s])
  apply (rule impI, rule runs_get_buf [OF s b], simp)
  apply (auto simp: wp_simps not_le intro!: B Q)
  done

lemma named_data_any:
  assumes s: "since sock w0 m w" and b: "\<not> blk \<longrightarrow> closes sock w0"
    and cap: "unat k \<le> length (nv_keys l)" "8 * unat sz_v \<le> length (nv_vals l)"
    and B: "\<And>st l' w'. since sock w0 m w' \<Longrightarrow> st < 0 \<Longrightarrow> same_arrays l l' \<Longrightarrow> B st l' w'"
    and Q: "\<And>n l' l2 w' st. since sock w0 m w' \<Longrightarrow> st = 0 \<Longrightarrow> n < sz_v \<Longrightarrow> l' = l2\<lparr>nv_out := Some (n, k)\<rparr> \<Longrightarrow> same_arrays l l2 \<Longrightarrow> Q st l' w'"
  shows "wp blk (named_data sock k sz_v) Q B R l w"
proof -
  have ile: "to_int x \<le> int (unat x)" for x :: u32 using to_int_le [of x] by simp
  have k1: "to_int k \<le> int (length (nv_keys l))" using ile [of k] cap(1) by linarith
  have k2: "to_int (n * 8) \<le> int (length (nv_vals l))" if "\<not> sz_v \<le> n" for n :: u32
  proof -
    have "unat (n * 8) \<le> unat n * 8" by (simp add: unat_word_ariths)
    moreover have "unat n < unat sz_v" using that by (simp add: word_le_nat_alt)
    ultimately show ?thesis using ile [of "n * 8"] cap(2) by linarith
  qed
  show ?thesis
    unfolding named_data_def wp_simps Let_def
    apply (rule runs_get_buf [OF s b k1])
    apply (simp only: prod.case wp_simps)
    apply (subst if_bool_eq_conj, intro conjI impI)
     apply (rule B, assumption, assumption)
     apply (use k1 in \<open>force simp: same_arrays_def\<close>)
    apply (rule runs_get_buf, assumption, rule b, simp add: HDR_LEN_def)
    apply (simp only: prod.case wp_simps)
    apply (subst if_bool_eq_conj, intro conjI impI)
     apply (rule B, assumption, assumption)
     apply (use k1 in \<open>force simp: same_arrays_def\<close>)
    apply (subst if_bool_eq_conj, intro conjI impI)
     apply (rule B, assumption, simp)
     apply (use k1 in \<open>force simp: same_arrays_def\<close>)
    apply (rule runs_get_buf, assumption, rule b)
     apply (use k2 in simp)
    apply (simp only: prod.case wp_simps)
    apply (subst if_bool_eq_conj, intro conjI impI)
     apply (rule B, assumption, assumption)
     apply (use k1 k2 in \<open>force simp: same_arrays_def\<close>)
    apply (rule Q, assumption, force, simp add: not_le, rule refl)
    apply (use k1 k2 in \<open>force simp: same_arrays_def\<close>)
    done
qed

lemma named_request_any:
  assumes s: "since sock w0 m w" and b: "\<not> blk \<longrightarrow> closes sock w0" and p: "ev_param1 l = Null"
    and fits: "\<And>s. name = Some s \<Longrightarrow> cstr_fits s"
    and arr: "unat sz_k \<le> length kb" "unat sz_v \<le> length vb" "nv_keys l = kb" "nv_vals l = vb"
    and B: "\<And>st l' w'. since sock w0 m w' \<Longrightarrow> st < 0 \<Longrightarrow> same_arrays l l' \<Longrightarrow> B st l' w'"
    and B': "\<And>st l' w' i b. since sock w0 (m(i \<mapsto> b)) w' \<Longrightarrow> m i = None \<Longrightarrow> st < 0 \<Longrightarrow> ev_param1 l' = Ptr i \<Longrightarrow>
      same_arrays l (l'\<lparr>ev_param1 := Null\<rparr>) \<Longrightarrow> B st l' w'"
    and Q: "\<And>ph l' w'. since sock w0 m w' \<Longrightarrow> same_arrays l l' \<Longrightarrow> Q ph l' w'"
  shows "wp blk (named_request sock name (Some kb) sz_k (Some vb) sz_v) Q B R l w"
proof -
  have c: "\<not> length kb < unat sz_k" "\<not> length vb < unat sz_v" using arr by simp_all
  show ?thesis
    unfolding named_request_def clear_array_def option.case wp_chain
  proof (rule any_channel.prepare_param_rule [OF s p], goal_cases)
    case (4 s' i w')
    show ?case
      apply (simp add: c wp_simps)
      apply (rule any_channel.send_request_rule [where b = "dt_string_param s'" and m = m and i = i])
             apply (use 4 fits in \<open>simp_all add: dt_string_param_small [simplified]\<close>)
       apply (rule B', assumption, assumption, assumption, simp)
       apply (use arr p in \<open>simp add: same_arrays_def\<close>)
      apply (simp only: wp_simps)
      apply (rule runs_get_buf, assumption, rule b, simp add: HDR_LEN_def)
      apply (simp only: prod.case wp_simps)
      apply (subst if_bool_eq_conj, intro conjI impI)
       apply (rule B, assumption, assumption)
       apply (use arr p in \<open>simp add: same_arrays_def\<close>)
      apply (rule Q, assumption)
      apply (use arr p in \<open>simp add: same_arrays_def\<close>)
      done
  qed (use fits B in \<open>auto simp: same_arrays_def\<close>)
qed

section \<open>Properties\<close>

text \<open>C26. A vector of doubles with a name each: \<open>get_named_vec_F8\<close> delivers exactly the names and the numbers and
  consumes exactly the response, if both arrays have room for one more than there is.\<close>

theorem get_named_vec_answers:
  assumes "serves sock (named_reply ks vs) rest w" and "fits_packet (length name)"
    and "list_all no_nul ks" and "length ks = length vs" and "vs \<noteq> []"
    and "length (str_array ks) + 28 + 8 * length vs < 2 ^ 24"
    and "length (str_array ks) < unat sz_k" and "unat sz_k \<le> length kb"
    and "length vs < unat sz_v" and "8 * unat sz_v \<le> length vb"
  shows "\<exists>w' keys vals. get_named_vec_F8 sock (Some name) (Some kb) sz_k (Some vb) sz_v w =
      Done (0, keys, vals, Some (of_nat (length vs), of_nat (length (str_array ks)))) w' \<and>
    nul_strings [] (take (length (str_array ks)) keys) = ks \<and> elements 8 le_dec (take (8 * length vs) vals) = vs \<and>
    served sock (eval_request True name) rest w w'"
proof -
  have "nul_strings [] (str_array ks) = ks"
    using nul_strings_packed [OF assms(3), of "replicate ((3 * length (packed ks)) mod 4) 1"]
    by (simp add: str_array_def pad4_def nul_strings_tail flip: packed_def)
  then have "runs False (get_named_vec_F8 sock (Some name) (Some kb) sz_k (Some vb) sz_v w)
    (\<lambda>r w'. \<exists>keys vals. r = (0, keys, vals, Some (of_nat (length vs), of_nat (length (str_array ks)))) \<and>
      nul_strings [] (take (length (str_array ks)) keys) = ks \<and> elements 8 le_dec (take (8 * length vs) vals) = vs \<and>
      served sock (eval_request True name) rest w w')"
    by (intro runs_named_reply [OF assms(1-8)])
      (use assms in \<open>auto simp: double_elt.length_array double_elt.elements_array\<close>)
  then show ?thesis by (auto dest!: runs_total)
qed

theorem get_named_vec_answers_witness:
  "\<exists>w' keys vals. get_named_vec_F8 3 (Some (lit ''x'')) (Some (replicate 16 7)) 16 (Some (replicate 24 7)) 3
     (peer_world [named_reply [lit ''abc'', lit ''defg''] [1, 2]]) = Done (0, keys, vals, Some (2, 12)) w' \<and>
   nul_strings [] (take 12 keys) = [lit ''abc'', lit ''defg'']"
  using get_named_vec_answers [of 3 "[lit ''abc'', lit ''defg'']" "[1, 2]" "[]" "peer_world [named_reply [lit ''abc'', lit ''defg''] [1, 2]]"
      "lit ''x''" 16 "replicate 16 7" 3 "replicate 24 7"]
  by (fastforce simp: serves_def fits_packet_def str_array_def pad4_def)

text \<open>C27. Where the comments of the function promise \<open>0 < *ptr_n_vals <= sz_vals\<close>, an array of exactly the right size is
  refused, after the names and before the numbers, which stay in the connection.\<close>

theorem get_named_vec_exact_size:
  assumes "serves sock (named_reply ks vs) rest w" and "fits_packet (length name)"
    and "list_all no_nul ks" and "length ks = length vs" and "vs \<noteq> []"
    and "length (str_array ks) + 28 + 8 * length vs < 2 ^ 24"
    and "length (str_array ks) < unat sz_k" and "unat sz_k \<le> length kb"
    and "unat sz_v = length vs" and "8 * unat sz_v \<le> length vb"
  shows "\<exists>w' keys vals. get_named_vec_F8 sock (Some name) (Some kb) sz_k (Some vb) sz_v w = Done (-1, keys, vals, None) w' \<and>
    served sock (eval_request True name) (array le64 vs @ rest) w w'"
proof -
  have "runs False (get_named_vec_F8 sock (Some name) (Some kb) sz_k (Some vb) sz_v w)
    (\<lambda>r w'. \<exists>keys vals. r = (-1, keys, vals, None) \<and> served sock (eval_request True name) (array le64 vs @ rest) w w')"
    by (intro runs_named_reply [OF assms(1-8)]) (use assms in auto)
  then show ?thesis by (auto dest!: runs_total)
qed

theorem get_named_vec_exact_size_witness:
  "\<exists>w' keys vals. get_named_vec_F8 3 (Some (lit ''x'')) (Some (replicate 16 7)) 16 (Some (replicate 16 7)) 2
     (peer_world [named_reply [lit ''abc'', lit ''defg''] [1, 2]]) = Done (-1, keys, vals, None) w'"
  using get_named_vec_exact_size [of 3 "[lit ''abc'', lit ''defg'']" "[1, 2]" "[]" "peer_world [named_reply [lit ''abc'', lit ''defg''] [1, 2]]"
      "lit ''x''" 16 "replicate 16 7" 2 "replicate 16 7"]
  by (fastforce simp: serves_def fits_packet_def str_array_def pad4_def)

text \<open>C25. In any environment: arrays as large as their sizes say are never written beyond, nothing leaks, and a
  failure stores neither count.\<close>

theorem get_named_vec_safe:
  assumes "wf_heap w" and "\<And>s. name = Some s \<Longrightarrow> cstr_fits s"
    and "unat sz_k \<le> length kb" and "8 * unat sz_v \<le> length vb"
  shows "runs (\<not> closes sock w) (get_named_vec_F8 sock name (Some kb) sz_k (Some vb) sz_v w) (\<lambda>(st, keys, vals, out) w'.
    length keys = length kb \<and> length vals = length vb \<and> heap w' = heap w \<and>
    (st < 0 \<and> out = None \<or> st = 0 \<and> (\<exists>n k. out = Some (n, k) \<and> n < sz_v \<and> k < sz_k)))"
proof -
  let ?blk = "\<not> closes sock w"
  let ?Q = "\<lambda>(st, keys, vals, out) w'. length keys = length kb \<and> length vals = length vb \<and> heap w' = heap w \<and>
    (st < 0 \<and> out = None \<or> st = 0 \<and> (\<exists>n k. out = Some (n, k) \<and> n < sz_v \<and> k < sz_k))"
  let ?bye = "\<lambda>st l w'. runs ?blk (obind (free_all [ev_param1 l] w') (\<lambda>_ w'. Done (st, nv_keys l, nv_vals l, nv_out l) w')) ?Q"
  let ?l0 = "\<lparr>ev_param1 = Null, nv_keys = kb, nv_vals = vb, nv_out = None\<rparr>"
  have s: "since sock w Map.empty w" by (rule since_start) (rule assms)
  have B: "?bye st l w'" if "since sock w Map.empty w'" "same_arrays ?l0 l" "st < 0" for st l w'
    using that since_heap [OF assms(1)] by (simp add: same_arrays_def sys_free_def)
  have B': "?bye st l w'" if "since sock w [i \<mapsto> b] w'" "ev_param1 l = Ptr i" "same_arrays ?l0 (l\<lparr>ev_param1 := Null\<rparr>)" "st < 0" for st l w' i b
    unfolding runs_obind that(2)
    by (rule any_env.free_one [OF that(1)]) (use that since_heap [OF assms(1)] in \<open>auto simp: same_arrays_def\<close>)
  have trans: "same_arrays ?l0 l2" if "same_arrays ?l0 l1" "same_arrays l1 l2" for l1 l2
    using that by (simp add: same_arrays_def)
  show ?thesis
    unfolding get_named_vec_F8_def runs_proc option.case wp_chain
  proof (rule named_request_any [OF s], goal_cases)
    case (10 ph l w')
    show ?case
    proof (rule named_head_any [OF 10(1)], goal_cases)
      case (3 k w'')
      then have "unat k < unat sz_k" by (simp add: word_less_nat_alt)
      then have k: "unat k \<le> length (nv_keys l)" "8 * unat sz_v \<le> length (nv_vals l)"
        using 10(2) assms(3,4) by (simp_all add: same_arrays_def)
      show ?case
        by (rule named_data_any [OF 3(1) _ k])
          (use 3 10 B trans since_heap [OF assms(1)] in \<open>auto simp: same_arrays_def sys_free_def\<close>)
    qed (use 10 B in auto)
  qed (use assms B B' in auto)
qed

theorem get_named_vec_safe_witness:
  "\<exists>r w'. get_named_vec_F8 3 (Some (lit ''x'')) (Some [7, 7]) 2 (Some (replicate 8 7)) 1 (peer_world [[1], [2, 3]]) = Done r w'"
  using get_named_vec_safe [of "peer_world [[1], [2, 3]]" "Some (lit ''x'')" 2 "[7, 7]" 1 "replicate 8 7" 3]
  by (auto simp: cstr_fits_def dest!: runs_total)

end
