(* ===== verification/Echo.thy ===== *)
theory Echo
  imports Machine
begin

text \<open>
  The two sample programs of sample_client_socket that measure the bandwidth of a connection: \<open>func\<close> of
  my_client.c sends a buffer whose first four bytes are its length and waits for as many bytes of
  value 2, \<open>func\<close> of my_server.c reads such buffers and sends them back with every 1 changed to 2.
  Both ignore what \<open>read\<close> returns for the length, and both read loops ask for the whole length again
  instead of what is missing; the client's does not stop at the end of the stream, so the loops are
  partial functions: \<open>None\<close> is a loop that never ends. Their \<open>main\<close> functions are in theory Echo_Main.
\<close>

section \<open>The read loops\<close>

text \<open>Bytes stored into a buffer at an offset.\<close>

definition patch :: "nat \<Rightarrow> byte list \<Rightarrow> byte list \<Rightarrow> byte list" where
  "patch off bs buf = take off buf @ bs @ drop (off + length bs) buf"

definition int_at :: "byte list \<Rightarrow> int" where
  "int_at buf = sint (le_dec (take 4 buf) :: u32)"

text \<open>\<open>for ( ; num_read < num_to_read; ) { int nr = read(sockfd, buf+num_read, num_to_read); num_read += nr; }\<close>; \<open>stop\<close>
  tells whether a result of 0 ends it, as in the server. The result is \<open>None\<close> when it did, otherwise the
  buffer.\<close>

partial_function (option) read_loop ::
    "bool \<Rightarrow> int \<Rightarrow> int \<Rightarrow> int \<Rightarrow> byte list \<Rightarrow> world \<Rightarrow> (byte list option, world) outcome option" where
  "read_loop stop sockfd num_to_read num_read buf w =
     (if num_read < num_to_read then
        if num_read < 0 \<or> int (length buf) < num_read then Some (Undef Out_of_bounds)
        else case sys_read sockfd (nat num_to_read) w of
            Undef u \<Rightarrow> Some (Undef u)
          | Blocked \<Rightarrow> Some Blocked
          | Done r w' \<Rightarrow>
              (let nr = fst r; bs = snd r in
               if length buf < nat num_read + length bs then Some (Undef Out_of_bounds)
               else if stop \<and> nr = 0 then Some (Done None w')
               else if int_max < num_read + nr then Some (Undef Signed_overflow)
               else read_loop stop sockfd num_to_read (num_read + nr) (patch (nat num_read) bs buf) w')
      else Some (Done (Some buf) w))"

text \<open>\<open>read(sockfd, buf, sizeof(int))\<close>, its result ignored.\<close>

definition read_length :: "int \<Rightarrow> byte list \<Rightarrow> world \<Rightarrow> (byte list, world) outcome" where
  "read_length sockfd buf w = obind (sys_read sockfd 4 w) (\<lambda>(nr, bs) w'.
     if length buf < length bs then Undef Out_of_bounds else Done (patch 0 bs buf) w')"

text \<open>The loops over the bytes from the fifth on: \<open>None\<close> when they run past the buffer.\<close>

definition all_are :: "byte \<Rightarrow> int \<Rightarrow> byte list \<Rightarrow> bool option" where
  "all_are v n buf =
     (if \<not> list_all (\<lambda>b. b = v) (drop 4 (take (nat n) buf)) then Some False
      else if length buf < nat n then None else Some True)"

section \<open>The client\<close>

text \<open>The status and the receive buffer. \<open>bufsz\<close> is the size the caller states, the lengths of the lists are the
  real ones.\<close>

definition client_func ::
    "int \<Rightarrow> byte list \<Rightarrow> byte list \<Rightarrow> int \<Rightarrow> world \<Rightarrow> (int \<times> byte list, world) outcome option" where
  "client_func sockfd sendbuf rcvbuf bufsz w =
     (if length sendbuf < 4 then Some (Undef Out_of_bounds)
      else let n = int_at sendbuf in
        if n \<le> 0 \<or> bufsz < n then Some (Done (-1, rcvbuf) w)
        else if length sendbuf < nat bufsz \<or> length rcvbuf < 4 then Some (Undef Out_of_bounds)
        else (case obind (sys_send sockfd (take (nat bufsz) sendbuf) w) (\<lambda>_. read_length sockfd rcvbuf) of
            Undef u \<Rightarrow> Some (Undef u)
          | Blocked \<Rightarrow> Some Blocked
          | Done rcvbuf w1 \<Rightarrow>
              (let n = int_at rcvbuf in
               map_option (\<lambda>r. obind r (\<lambda>res w2.
                   let rcvbuf = the res in
                   case all_are 2 n rcvbuf of
                     None \<Rightarrow> Undef Out_of_bounds
                   | Some ok \<Rightarrow> Done (if ok then 0 else -1, rcvbuf) w2))
                 (read_loop False sockfd n 4 rcvbuf w1))))"

section \<open>The server\<close>

text \<open>One round of the server's endless loop; the result is \<open>None\<close> for \<open>exit(-1)\<close>.\<close>

definition server_round :: "int \<Rightarrow> byte list \<Rightarrow> int \<Rightarrow> world \<Rightarrow> (byte list option, world) outcome option" where
  "server_round sockfd buf szbuf w =
     (if length buf < 4 then Some (Undef Out_of_bounds)
      else case read_length sockfd buf w of
          Undef u \<Rightarrow> Some (Undef u)
        | Blocked \<Rightarrow> Some Blocked
        | Done buf w1 \<Rightarrow>
            (let n = int_at buf in
             if n \<le> 0 \<or> szbuf < n then Some (Done None w1)
             else map_option (\<lambda>r. obind r (\<lambda>res w2. case res of
                 None \<Rightarrow> Done None w2
               | Some buf \<Rightarrow>
                   (case all_are 1 n buf of
                      None \<Rightarrow> Undef Out_of_bounds
                    | Some False \<Rightarrow> Done None w2
                    | Some True \<Rightarrow>
                        (let buf = patch 4 (replicate (nat n - 4) 2) buf in
                         obind (sys_send sockfd (take (nat n) buf) w2) (\<lambda>nw w3.
                         Done (if nw < 0 then None else Some buf) w3)))))
               (read_loop True sockfd n 4 buf w1)))"

text \<open>The endless loop: a result is an \<open>exit(-1)\<close>. Its counter is not used, but it is an \<open>int\<close>.\<close>

partial_function (option) server_func :: "int \<Rightarrow> byte list \<Rightarrow> int \<Rightarrow> int \<Rightarrow> world \<Rightarrow> (unit, world) outcome option" where
  "server_func sockfd buf szbuf i w = (case server_round sockfd buf szbuf w of
       None \<Rightarrow> None
     | Some (Undef u) \<Rightarrow> Some (Undef u)
     | Some Blocked \<Rightarrow> Some Blocked
     | Some (Done res w') \<Rightarrow> (case res of
           None \<Rightarrow> Some (Done () w')
         | Some buf \<Rightarrow> if i = int_max then Some (Undef Signed_overflow) else server_func sockfd buf szbuf (i + 1) w'))"

section \<open>Reading what is there\<close>

lemma length_patch [simp]: "off + length bs \<le> length buf \<Longrightarrow> length (patch off bs buf) = length buf"
  by (simp add: patch_def)

lemma patch_patch:
  "off + length bs \<le> length buf \<Longrightarrow> k \<le> length bs \<Longrightarrow>
   patch (off + k) (drop k bs) (patch off (take k bs) buf) = patch off bs buf"
proof -
  assume "off + length bs \<le> length buf" "k \<le> length bs"
  have e: "take k bs @ drop k bs @ ys = bs @ ys" for ys by (simp flip: append_assoc)
  show ?thesis using \<open>off + length bs \<le> length buf\<close> \<open>k \<le> length bs\<close> by (simp add: patch_def e add.commute)
qed

text \<open>A connection with \<open>bs\<close> still to be delivered and nothing behind it until the loop has what it wants.\<close>

lemma read_loop_complete:
  assumes "socks w sockfd = Some (Connected c)" and "avail (inq c) = bs" and "0 \<le> num_read"
    and "num_read + int (length bs) = num_to_read" and "nat num_to_read \<le> length buf" and "num_to_read \<le> int_max"
  shows "\<exists>q. avail q = [] \<and> stop_of q = stop_of (inq c) \<and> read_loop stop sockfd num_to_read num_read buf w =
    Some (Done (Some (patch (nat num_read) bs buf)) (put_conn sockfd (c\<lparr>inq := q\<rparr>) w))"
  using assms
proof (induction "length bs" arbitrary: bs num_read buf w c rule: less_induct)
  case less
  show ?case
  proof (cases "bs = []")
    case True
    then have "read_loop stop sockfd num_to_read num_read buf w = Some (Done (Some buf) w)"
      using less.prems by (subst read_loop.simps) simp
    moreover have "put_conn sockfd (c\<lparr>inq := inq c\<rparr>) w = w" using less.prems(1) by (simp add: put_conn_same)
    ultimately show ?thesis using True less.prems(2) by (intro exI [of _ "inq c"]) (simp add: patch_def)
  next
    case False
    have "0 < length bs" using False by simp
    then have "num_read < num_to_read" using less.prems(4) by linarith
    then have lt: "num_read < num_to_read" "0 < nat num_to_read" using less.prems(3) by simp_all
    obtain k where k: "0 < k" "k \<le> nat num_to_read" "k \<le> length bs"
      "read_event (nat num_to_read) (inq c) = Some (Got (take k bs), drain k (inq c))"
      using read_event_avail [of "nat num_to_read" "inq c"] lt False less.prems(2) by auto
    let ?w = "put_conn sockfd (c\<lparr>inq := drain k (inq c)\<rparr>) w"
    have r: "sys_read sockfd (nat num_to_read) w = Done (int k, take k bs) ?w"
      using less.prems(1) lt k by (simp add: sys_read_def min_def)
    have step: "read_loop stop sockfd num_to_read num_read buf w =
      read_loop stop sockfd num_to_read (num_read + int k) (patch (nat num_read) (take k bs) buf) ?w"
      using less.prems lt k by (subst read_loop.simps) (auto simp: r min_def Let_def)
    have shorter: "length (drop k bs) < length bs" using k by simp
    obtain q where q: "avail q = []" "stop_of q = stop_of (inq c)" "read_loop stop sockfd num_to_read (num_read + int k)
        (patch (nat num_read) (take k bs) buf) ?w =
      Some (Done (Some (patch (nat (num_read + int k)) (drop k bs) (patch (nat num_read) (take k bs) buf)))
        (put_conn sockfd (c\<lparr>inq := drain k (inq c), inq := q\<rparr>) ?w))"
      using less.hyps [OF shorter, of ?w "c\<lparr>inq := drain k (inq c)\<rparr>" "num_read + int k" "patch (nat num_read) (take k bs) buf"]
        less.prems k by auto
    have "patch (nat (num_read + int k)) (drop k bs) (patch (nat num_read) (take k bs) buf) = patch (nat num_read) bs buf"
      using less.prems k patch_patch [of "nat num_read" bs buf k] by (auto simp: nat_add_distrib)
    then show ?thesis using q step by auto
  qed
qed

text \<open>A buffer as the two programs exchange it: its length and a filling.\<close>

definition message :: "nat \<Rightarrow> byte \<Rightarrow> byte list" where
  "message n v = le32 (of_nat n) @ replicate (n - 4) v"

lemma length_message [simp]: "4 \<le> n \<Longrightarrow> length (message n v) = n"
  by (simp add: message_def)

lemma int_at_message: "n < 2 ^ 31 \<Longrightarrow> int_at (le32 (of_nat n) @ bs) = int n"
  using to_int_of_nat [where 'a = 32, of n] by (simp add: int_at_def to_int_def)

text \<open>The length comes in the first segment.\<close>

lemma read_length_whole:
  assumes c: "socks w sockfd = Some (Connected c)" "inq c = Data seg # q" and m: "seg @ avail q = le32 n @ bs" "4 \<le> length seg"
    and buf: "4 \<le> length buf"
  obtains q' where "read_length sockfd buf w = Done (le32 n @ drop 4 buf) (put_conn sockfd (c\<lparr>inq := q'\<rparr>) w)" "avail q' = bs"
    "stop_of q' = stop_of q"
proof -
  let ?q = "if length seg \<le> 4 then q else Data (drop 4 seg) # q"
  have "take 4 (seg @ avail q) = take 4 seg" using m(2) by simp
  then have t: "take 4 seg = le32 n" using m(1) by simp
  have "drop 4 (seg @ avail q) = drop 4 seg @ avail q" using m(2) by simp
  then have d: "drop 4 seg @ avail q = bs" using m(1) by simp
  have ne: "seg \<noteq> []" using m(2) by auto
  have "read_event 4 (inq c) = Some (Got (le32 n), ?q)"
    using t m(2) ne by (auto simp: c(2))
  then have "sys_read sockfd 4 w = Done (4, le32 n) (put_conn sockfd (c\<lparr>inq := ?q\<rparr>) w)"
    by (simp add: sys_read_def c(1))
  then have "read_length sockfd buf w = Done (le32 n @ drop 4 buf) (put_conn sockfd (c\<lparr>inq := ?q\<rparr>) w)"
    using buf by (simp add: read_length_def patch_def)
  moreover have "avail ?q = bs" using d by (cases "length seg \<le> 4") simp_all
  ultimately show ?thesis using that by (cases "length seg \<le> 4") simp_all
qed

lemma receive_message:
  assumes c: "socks w sockfd = Some (Connected c)" "inq c = Data seg # q" and m: "seg @ avail q = message n v" "4 \<le> length seg"
    and n: "4 \<le> n" "n \<le> length buf" "n < 2 ^ 31"
  obtains w1 q' where "read_length sockfd buf w = Done (le32 (of_nat n) @ drop 4 buf) w1"
    "read_loop stop sockfd (int n) 4 (le32 (of_nat n) @ drop 4 buf) w1 =
      Some (Done (Some (message n v @ drop n buf)) (put_conn sockfd (c\<lparr>inq := q'\<rparr>) w))" "avail q' = []" "stop_of q' = stop_of q"
proof -
  have buf: "4 \<le> length buf" using n by simp
  obtain q1 where r: "read_length sockfd buf w = Done (le32 (of_nat n) @ drop 4 buf) (put_conn sockfd (c\<lparr>inq := q1\<rparr>) w)"
    "avail q1 = replicate (n - 4) v" "stop_of q1 = stop_of q"
    by (rule read_length_whole [OF c m(1) [unfolded message_def] m(2) buf])
  let ?w = "put_conn sockfd (c\<lparr>inq := q1\<rparr>) w"
  obtain q2 where "avail q2 = []" "stop_of q2 = stop_of q1" "read_loop stop sockfd (int n) 4 (le32 (of_nat n) @ drop 4 buf) ?w =
    Some (Done (Some (patch (nat 4) (replicate (n - 4) v) (le32 (of_nat n) @ drop 4 buf))) (put_conn sockfd (c\<lparr>inq := q1, inq := q2\<rparr>) ?w))"
    using read_loop_complete [of ?w sockfd "c\<lparr>inq := q1\<rparr>" "replicate (n - 4) v" 4 "int n" "le32 (of_nat n) @ drop 4 buf" stop] r n
    by auto
  moreover have "patch (nat 4) (replicate (n - 4) v) (le32 (of_nat n) @ drop 4 buf) = message n v @ drop n buf"
    using n by (simp add: patch_def message_def)
  ultimately show ?thesis using that [OF r(1), of q2] r(3) by auto
qed

lemma all_are_message: "4 \<le> n \<Longrightarrow> all_are v (int n) (message n v @ bs) = Some True"
  by (auto simp: all_are_def message_def list_all_iff)

text \<open>The same in one segment, with the events behind it.\<close>

lemma receive_segment:
  assumes c: "socks w sockfd = Some (Connected c)" "inq c = Data (message n v) # q"
    and n: "4 \<le> n" "n \<le> length buf" "n < 2 ^ 31"
  obtains w1 where "read_length sockfd buf w = Done (le32 (of_nat n) @ drop 4 buf) w1"
    "read_loop stop sockfd (int n) 4 (le32 (of_nat n) @ drop 4 buf) w1 =
      Some (Done (Some (message n v @ drop n buf)) (put_conn sockfd (c\<lparr>inq := q\<rparr>) w))"
proof (cases "n = 4")
  case True
  have r: "read_event 4 (inq c) = Some (Got (le32 4), q)" using c(2) True by (simp add: message_def)
  show ?thesis
  proof (rule that)
    show "read_length sockfd buf w = Done (le32 (of_nat n) @ drop 4 buf) (put_conn sockfd (c\<lparr>inq := q\<rparr>) w)"
      using n(2) True by (simp add: read_length_def sys_read_def c(1) r patch_def)
    show "read_loop stop sockfd (int n) 4 (le32 (of_nat n) @ drop 4 buf) (put_conn sockfd (c\<lparr>inq := q\<rparr>) w) =
      Some (Done (Some (message n v @ drop n buf)) (put_conn sockfd (c\<lparr>inq := q\<rparr>) w))"
      using True by (subst read_loop.simps) (simp add: message_def)
  qed
next
  case False
  let ?t = "replicate (n - 4) v" and ?buf = "le32 (of_nat n) @ drop 4 buf"
  let ?w = "put_conn sockfd (c\<lparr>inq := Data ?t # q\<rparr>) w"
  have t: "?t \<noteq> []" "length ?t \<le> n" "4 < n" using False n(1) by auto
  have r: "read_event 4 (inq c) = Some (Got (le32 (of_nat n)), Data ?t # q)" using c(2) t by (simp add: message_def)
  have r2: "sys_read sockfd n ?w = Done (int (n - 4), ?t) (put_conn sockfd (c\<lparr>inq := q\<rparr>) w)"
    using t by (simp add: sys_read_def)
  have p: "patch 4 ?t ?buf = message n v @ drop n buf" using n by (simp add: patch_def message_def)
  show ?thesis
  proof (rule that)
    show "read_length sockfd buf w = Done ?buf ?w"
      using n t by (simp add: read_length_def sys_read_def c(1) r patch_def)
    show "read_loop stop sockfd (int n) 4 ?buf ?w =
      Some (Done (Some (message n v @ drop n buf)) (put_conn sockfd (c\<lparr>inq := q\<rparr>) w))"
      using n t p by (subst read_loop.simps) (simp add: r2 Let_def, subst read_loop.simps, simp add: of_nat_diff)
  qed
qed

text \<open>A stream that has ended stays at its end.\<close>

lemma ended_dropWhile:
  "avail q = [] \<Longrightarrow> stop_of q = Closed \<Longrightarrow>
   avail (dropWhile (\<lambda>e. e = Data []) q) = [] \<and> stop_of (dropWhile (\<lambda>e. e = Data []) q) = Closed"
  by (induction q rule: stop_of.induct) auto

definition ended :: "int \<Rightarrow> world \<Rightarrow> bool" where
  "ended sockfd w \<longleftrightarrow> (\<exists>c. socks w sockfd = Some (Connected c) \<and> avail (inq c) = [] \<and> stop_of (inq c) = Closed)"

lemma sys_read_ended:
  assumes "ended sockfd w" "0 < n"
  obtains w' where "sys_read sockfd n w = Done (0, []) w'" "ended sockfd w'"
proof -
  obtain c where c: "socks w sockfd = Some (Connected c)" "avail (inq c) = []" "stop_of (inq c) = Closed"
    using assms(1) by (auto simp: ended_def)
  let ?w = "put_conn sockfd (c\<lparr>inq := dropWhile (\<lambda>e. e = Data []) (inq c)\<rparr>) w"
  have "sys_read sockfd n w = Done (0, []) ?w"
    using c assms(2) by (simp add: sys_read_def read_event_stopped)
  moreover have "ended sockfd ?w" using ended_dropWhile [OF c(2,3)] by (simp add: ended_def)
  ultimately show ?thesis by (rule that)
qed

lemma patch_Nil [simp]: "patch off [] buf = buf"
  by (simp add: patch_def)

lemma read_loop_ended:
  "read_loop stop sockfd num_to_read num_read buf w = Some y \<Longrightarrow>
   \<not> (\<not> stop \<and> ended sockfd w \<and> 0 \<le> num_read \<and> num_read < num_to_read \<and> num_read \<le> int (length buf) \<and> num_read \<le> int_max)"
proof (erule read_loop.raw_induct [where P = "\<lambda>stop sockfd num_to_read num_read buf w y. \<not> (\<not> stop \<and> ended sockfd w \<and> 0 \<le> num_read \<and>
      num_read < num_to_read \<and> num_read \<le> int (length buf) \<and> num_read \<le> int_max)", rotated], goal_cases)
  case (1 f stop sockfd num_to_read num_read buf w y)
  show ?case
  proof
    assume h: "\<not> stop \<and> ended sockfd w \<and> 0 \<le> num_read \<and> num_read < num_to_read \<and> num_read \<le> int (length buf) \<and> num_read \<le> int_max"
    then have "0 < nat num_to_read" by simp
    with h obtain w' where w': "sys_read sockfd (nat num_to_read) w = Done (0, []) w'" "ended sockfd w'"
      using sys_read_ended by metis
    have hs: "stop = False" "num_read < num_to_read" "\<not> num_read < 0" "\<not> int (length buf) < num_read"
      "\<not> length buf < nat num_read" "\<not> int_max < num_read" using h by auto
    have "f stop sockfd num_to_read num_read buf w' = Some y"
      using 1(2) unfolding hs(1) by (simp add: hs(2-6) [simplified] w'(1))
    from 1(1) [OF this] show False using h w'(2) by simp
  qed
qed

section \<open>Rounds\<close>

lemma message_retag: "4 \<le> n \<Longrightarrow> patch 4 (replicate (n - 4) v) (message n u @ bs) = message n v @ bs"
  by (simp add: patch_def message_def)

lemma server_round_exact:
  assumes c: "socks w sockfd = Some (Connected c)" "inq c = Data (message n 1) # q" "sndq c = []"
    and n: "4 \<le> n" "int n \<le> szbuf" "szbuf \<le> int (length buf)" "szbuf \<le> int_max"
  shows "server_round sockfd buf szbuf w = Some (Done (Some (message n 2 @ drop n buf))
    (put_conn sockfd (c\<lparr>inq := q, outb := outb c @ message n 2\<rparr>) w))"
proof -
  have n': "n \<le> length buf" "n < 2 ^ 31" "4 \<le> length buf" using n by auto
  obtain w1 where r: "read_length sockfd buf w = Done (le32 (of_nat n) @ drop 4 buf) w1"
    "read_loop True sockfd (int n) 4 (le32 (of_nat n) @ drop 4 buf) w1 =
      Some (Done (Some (message n 1 @ drop n buf)) (put_conn sockfd (c\<lparr>inq := q\<rparr>) w))"
    by (rule receive_segment [OF c(1,2) n(1) n'(1,2), of True])
  show ?thesis
    using n n' r c(3) by (simp add: server_round_def Let_def int_at_message all_are_message message_retag sys_send_def)
qed

lemma client_func_exact:
  assumes c: "socks w sockfd = Some (Connected c)" "inq c = Data (message n 2) # q" "sndq c = []"
    and n: "4 \<le> n" "length rcvbuf = n" "n < 2 ^ 31"
  shows "client_func sockfd (message n 1) rcvbuf (int n) w =
    Some (Done (0, message n 2) (put_conn sockfd (c\<lparr>inq := q, outb := outb c @ message n 1\<rparr>) w))"
proof -
  let ?c = "c\<lparr>outb := outb c @ message n 1\<rparr>"
  let ?w = "put_conn sockfd ?c w"
  have snd: "sys_send sockfd (message n 1) w = Done (int (length (message n 1))) ?w"
    by (simp add: sys_send_def c(1,3))
  obtain w1 where r: "read_length sockfd rcvbuf ?w = Done (le32 (of_nat n) @ drop 4 rcvbuf) w1"
    "read_loop False sockfd (int n) 4 (le32 (of_nat n) @ drop 4 rcvbuf) w1 =
      Some (Done (Some (message n 2 @ drop n rcvbuf)) (put_conn sockfd (?c\<lparr>inq := q\<rparr>) ?w))"
    by (rule receive_segment [of ?w sockfd ?c n 2 q rcvbuf False]) (use c n in simp_all)
  have ia: "int_at (message n v) = int n" for v using n(3) by (simp add: message_def int_at_message)
  have ord: "c\<lparr>outb := x, inq := q\<rparr> = c\<lparr>inq := q, outb := x\<rparr>" for x by (cases c) simp
  show ?thesis
    using n r ia all_are_message [of n 2 "[]"]
    by (simp add: client_func_def Let_def snd int_at_message ord)
qed

text \<open>The end of the stream: the length read last is still in the buffer, and the loop meets the end.\<close>

lemma server_round_at_end:
  assumes "ended sockfd w" and n: "4 < n" "int n \<le> szbuf" "szbuf \<le> int (length (message n v @ bs))" "szbuf \<le> int_max"
  shows "\<exists>w'. server_round sockfd (message n v @ bs) szbuf w = Some (Done None w') \<and> sent sockfd w' = sent sockfd w"
proof -
  have z: "\<exists>w'. sys_read sockfd k w = Done (0, []) w' \<and> ended sockfd w' \<and> sent sockfd w' = sent sockfd w"
    if e: "ended sockfd w" "0 < k" for k w
  proof -
    obtain c where c: "socks w sockfd = Some (Connected c)" "avail (inq c) = []" "stop_of (inq c) = Closed"
      using e(1) by (auto simp: ended_def)
    then show ?thesis
      using e(2) ended_dropWhile [OF c(2,3)] by (simp add: sys_read_def read_event_stopped ended_def sent_def)
  qed
  obtain w1 where w1: "sys_read sockfd 4 w = Done (0, []) w1" "ended sockfd w1" "sent sockfd w1 = sent sockfd w"
    using z [OF assms(1), of 4] by auto
  obtain w2 where w2: "sys_read sockfd n w1 = Done (0, []) w2" "sent sockfd w2 = sent sockfd w1"
    using z [OF w1(2), of n] n(1) by auto
  let ?buf = "message n v @ bs"
  have ia: "int_at ?buf = int n" "4 \<le> length ?buf" "n \<le> length ?buf"
    using n by (simp_all add: message_def int_at_message)
  have rl: "read_length sockfd ?buf w = Done ?buf w1" by (simp add: read_length_def w1(1))
  have lp: "read_loop True sockfd (int n) 4 ?buf w1 = Some (Done None w2)"
    using n ia by (subst read_loop.simps) (simp add: w2(1))
  show ?thesis
    using n ia by (simp add: server_round_def rl lp Let_def w1(3) w2(2))
qed

text \<open>A session of the server: messages, each in a segment of its own, and the end of the stream.\<close>

definition ones :: "nat list \<Rightarrow> rcv_event list" where
  "ones ns = map (\<lambda>n. Data (message n 1)) ns"

definition fits_buffer :: "int \<Rightarrow> nat \<Rightarrow> bool" where
  "fits_buffer szbuf n \<longleftrightarrow> 4 < n \<and> int n \<le> szbuf"

lemma server_func_step:
  assumes "socks w sockfd = Some (Connected c)" "inq c = ones (n # ns) @ [Eof]" "sndq c = []"
    and "fits_buffer szbuf n" "szbuf \<le> int (length buf)" "szbuf \<le> int_max" "i < int_max"
  shows "server_func sockfd buf szbuf i w = server_func sockfd (message n 2 @ drop n buf) szbuf (i + 1)
    (put_conn sockfd (c\<lparr>inq := ones ns @ [Eof], outb := outb c @ message n 2\<rparr>) w)"
proof -
  have "inq c = Data (message n 1) # ones ns @ [Eof]" using assms(2) by (simp add: ones_def)
  from server_round_exact [OF assms(1) this assms(3) _ _ assms(5,6)] show ?thesis
    using assms(4,7) by (subst server_func.simps) (simp add: fits_buffer_def)
qed

lemma server_func_rest:
  "socks w sockfd = Some (Connected c) \<Longrightarrow> inq c = ones ns @ [Eof] \<Longrightarrow> sndq c = [] \<Longrightarrow> list_all (fits_buffer szbuf) (m # ns) \<Longrightarrow>
   szbuf \<le> int (length (message m v @ bs)) \<Longrightarrow> szbuf \<le> int_max \<Longrightarrow> i + int (length ns) \<le> int_max \<Longrightarrow>
   \<exists>w'. server_func sockfd (message m v @ bs) szbuf i w = Some (Done () w') \<and>
     sent sockfd w' = outb c @ concat (map (\<lambda>n. message n 2) ns)"
proof (induction ns arbitrary: m v bs i w c)
  case Nil
  then have "ended sockfd w" by (simp add: ended_def ones_def)
  from server_round_at_end [OF this, of m szbuf v bs] Nil.prems show ?case
    by (subst server_func.simps) (auto simp: fits_buffer_def sent_def)
next
  case (Cons n ns)
  let ?buf = "message m v @ bs"
  have n: "4 < n" "n \<le> length ?buf" "i < int_max" using Cons.prems by (auto simp: fits_buffer_def)
  have l: "szbuf \<le> int (length (message n 2 @ drop n ?buf))" using Cons.prems n by simp
  let ?c = "c\<lparr>inq := ones ns @ [Eof], outb := outb c @ message n 2\<rparr>"
  have "server_func sockfd ?buf szbuf i w = server_func sockfd (message n 2 @ drop n ?buf) szbuf (i + 1) (put_conn sockfd ?c w)"
    by (rule server_func_step [OF Cons.prems(1-3) _ Cons.prems(5,6) n(3)]) (use Cons.prems(4) in simp)
  moreover have "\<exists>w'. server_func sockfd (message n 2 @ drop n ?buf) szbuf (i + 1) (put_conn sockfd ?c w) = Some (Done () w') \<and>
      sent sockfd w' = outb ?c @ concat (map (\<lambda>n. message n 2) ns)"
    by (rule Cons.IH [OF _ _ _ _ l Cons.prems(6)]) (use Cons.prems in simp_all)
  ultimately show ?case by simp
qed

lemma server_func_run:
  assumes "socks w sockfd = Some (Connected c)" and "inq c = ones ns @ [Eof]" and "sndq c = []" and "ns \<noteq> []"
    and "list_all (fits_buffer szbuf) ns" and "szbuf \<le> int (length buf)" and "szbuf \<le> int_max" and "int (length ns) \<le> int_max"
  shows "\<exists>w'. server_func sockfd buf szbuf 0 w = Some (Done () w') \<and>
    sent sockfd w' = outb c @ concat (map (\<lambda>n. message n 2) ns)"
proof -
  obtain n ns' where ns: "ns = n # ns'" using assms(4) by (cases ns) auto
  have n: "fits_buffer szbuf n" "n \<le> length buf" "4 < n" using assms(5,6) by (auto simp: ns fits_buffer_def)
  have l: "szbuf \<le> int (length (message n 2 @ drop n buf))" using assms(6) n by simp
  show ?thesis
    using server_func_step [OF assms(1) assms(2) [unfolded ns] assms(3) n(1) assms(6,7), of 0]
      server_func_rest [of "put_conn sockfd (c\<lparr>inq := ones ns' @ [Eof], outb := outb c @ message n 2\<rparr>) w" sockfd
        "c\<lparr>inq := ones ns' @ [Eof], outb := outb c @ message n 2\<rparr>" ns' szbuf n 2 "drop n buf" 1] assms(3,5,7,8) l
    by (simp add: ns)
qed

section \<open>Properties\<close>

text \<open>C34. A whole run of the server's loop: it answers every message, in order, and ends when the client closes.\<close>

theorem server_func_session:
  assumes "socks w sockfd = Some (Connected c)" and "inq c = ones ns @ [Eof]" and "sndq c = []" and "ns \<noteq> []"
    and "list_all (fits_buffer szbuf) ns" and "szbuf \<le> int (length buf)" and "szbuf \<le> int_max" and "int (length ns) \<le> int_max"
  shows "\<exists>w'. server_func sockfd buf szbuf 0 w = Some (Done () w') \<and>
    sent sockfd w' = outb c @ concat (map (\<lambda>n. message n 2) ns)"
  by (rule server_func_run [OF assms])

theorem server_func_session_witness:
  "\<exists>w'. server_func 3 (replicate 8 0) 8 0 (peer_world [message 6 1, message 8 1]) = Some (Done () w') \<and>
     sent 3 w' = message 6 2 @ message 8 2"
proof -
  have "socks (peer_world [message 6 1, message 8 1]) 3 = Some (Connected (peer_conn [message 6 1, message 8 1] [Eof]))"
    by (simp add: peer_world_def)
  from server_func_session [OF this, of "[6, 8]" 8 "replicate 8 0"] show ?thesis
    by (simp add: peer_conn_def ones_def fits_buffer_def)
qed

text \<open>The server sends a message of ones back as a message of twos, and takes nothing else from the connection.\<close>

theorem server_round_echoes:
  assumes "socks w sockfd = Some (Connected c)" and "inq c = Data seg # q" and "sndq c = []"
    and "seg @ avail q = message n 1" and "4 \<le> length seg"
    and "4 \<le> n" and "int n \<le> szbuf" and "szbuf \<le> int (length buf)" and "szbuf \<le> int_max"
  shows "\<exists>buf' w'. server_round sockfd buf szbuf w = Some (Done (Some buf') w') \<and>
    sent sockfd w' = sent sockfd w @ message n 2 \<and> pending sockfd w' = Some []"
proof -
  have n: "n \<le> length buf" "n < 2 ^ 31" "4 \<le> length buf" using assms by auto
  obtain w1 q' where r: "read_length sockfd buf w = Done (le32 (of_nat n) @ drop 4 buf) w1"
    "read_loop True sockfd (int n) 4 (le32 (of_nat n) @ drop 4 buf) w1 =
      Some (Done (Some (message n 1 @ drop n buf)) (put_conn sockfd (c\<lparr>inq := q'\<rparr>) w))" "avail q' = []"
    by (rule receive_message [OF assms(1,2,4,5,6) n(1,2), of True])
  have p: "take (n) (patch 4 (replicate (n - 4) 2) (message n 1 @ drop n buf)) = message n 2"
    using assms(6) by (simp add: patch_def message_def)
  show ?thesis
    using n assms(3,6,7) r p
    by (simp add: server_round_def Let_def all_are_message int_at_message sys_send_def sent_def pending_def assms(1))
qed

theorem server_round_echoes_witness:
  "\<exists>buf' w'. server_round 3 (replicate 8 0) 8 (peer_world [le32 6 @ [1], [1]]) = Some (Done (Some buf') w') \<and>
     sent 3 w' = le32 6 @ [2, 2]"
proof -
  have "message 6 1 = le32 6 @ [1, 1]" "message 6 2 = le32 6 @ [2, 2]" by (simp_all add: message_def numeral_2_eq_2)
  moreover have "socks (peer_world [le32 6 @ [1], [1]]) 3 = Some (Connected (peer_conn [le32 6 @ [1], [1]] [Eof]))"
    by (simp add: peer_world_def)
  ultimately show ?thesis
    using server_round_echoes [of "peer_world [le32 6 @ [1], [1]]" 3 _ "le32 6 @ [1]" "[Data [1], Eof]" 6 8 "replicate 8 0"]
    by (simp add: peer_conn_def) blast
qed

text \<open>A buffer as large as the stated size does not save the server: one byte more in the segment, and the second
  \<open>read\<close>, which asks for the whole length again, writes beyond it.\<close>

theorem server_round_overflow:
  assumes "socks w sockfd = Some (Connected c)" and "inq c = Data (message n 1 @ extra) # q"
    and "4 < n" and "n < 2 ^ 31" and "length buf = n" and "szbuf = int n" and "extra \<noteq> []"
  shows "server_round sockfd buf szbuf w = Some (Undef Out_of_bounds)"
proof -
  let ?tail = "replicate (n - 4) 1 @ extra"
  obtain q' where r: "read_length sockfd buf w = Done (le32 (of_nat n) @ drop 4 buf) (put_conn sockfd (c\<lparr>inq := q'\<rparr>) w)"
    "q' = Data ?tail # q"
  proof -
    have "read_event 4 (inq c) = Some (Got (le32 (of_nat n)), Data ?tail # q)"
      using assms(3) by (simp add: assms(2) message_def)
    then have "sys_read sockfd 4 w = Done (4, le32 (of_nat n)) (put_conn sockfd (c\<lparr>inq := Data ?tail # q\<rparr>) w)"
      by (simp add: sys_read_def assms(1))
    then show ?thesis using that assms(3,5) by (simp add: read_length_def patch_def)
  qed
  have "\<exists>q2 k. read_event n (inq (c\<lparr>inq := q'\<rparr>)) = Some (Got (take n ?tail), q2)"
    using assms(3) r(2) by auto
  then obtain q2 where "read_event n q' = Some (Got (take n ?tail), q2)" by auto
  then have "sys_read sockfd n (put_conn sockfd (c\<lparr>inq := q'\<rparr>) w) =
      Done (int (length (take n ?tail)), take n ?tail) (put_conn sockfd (c\<lparr>inq := q2\<rparr>) w)"
    using assms(3) by (simp add: sys_read_def)
  moreover have "n < 4 + length (take n ?tail)" using assms(3,7) by (cases extra) auto
  ultimately have "read_loop True sockfd (int n) 4 (le32 (of_nat n) @ drop 4 buf) (put_conn sockfd (c\<lparr>inq := q'\<rparr>) w) =
      Some (Undef Out_of_bounds)"
    using assms(3,5) by (subst read_loop.simps) simp
  then show ?thesis
    using assms(3-6) r(1) by (simp add: server_round_def Let_def int_at_message)
qed

theorem server_round_overflow_witness:
  "server_round 3 (replicate 8 0) 8 (peer_world [message 8 1 @ message 8 1]) = Some (Undef Out_of_bounds)"
proof -
  have "message 8 1 \<noteq> []" by (simp add: message_def)
  then show ?thesis
    by (intro server_round_overflow [of _ _ "peer_conn [message 8 1 @ message 8 1] [Eof]" 8 "message 8 1" "[Eof]"])
      (simp_all add: peer_world_def peer_conn_def)
qed

text \<open>The client accepts the answer of the server, however it is cut after its first four bytes.\<close>

theorem client_func_answered:
  assumes "socks w sockfd = Some (Connected c)" and "inq c = Data seg # q" and "sndq c = []"
    and "seg @ avail q = message n 2" and "4 \<le> length seg"
    and "4 \<le> n" and "n \<le> length rcvbuf" and "n < 2 ^ 31"
  shows "\<exists>buf' w'. client_func sockfd (message n 1) rcvbuf (int n) w = Some (Done (0, buf') w') \<and>
    sent sockfd w' = sent sockfd w @ message n 1 \<and> pending sockfd w' = Some []"
proof -
  let ?c = "c\<lparr>outb := outb c @ message n 1\<rparr>"
  let ?w = "put_conn sockfd ?c w"
  have snd: "sys_send sockfd (message n 1) w = Done (int (length (message n 1))) ?w"
    by (simp add: sys_send_def assms(1,3))
  obtain w1 q' where r: "read_length sockfd rcvbuf ?w = Done (le32 (of_nat n) @ drop 4 rcvbuf) w1"
    "read_loop False sockfd (int n) 4 (le32 (of_nat n) @ drop 4 rcvbuf) w1 =
      Some (Done (Some (message n 2 @ drop n rcvbuf)) (put_conn sockfd (?c\<lparr>inq := q'\<rparr>) ?w))" "avail q' = []"
    by (rule receive_message [of ?w sockfd ?c seg q n 2 rcvbuf False]) (use assms in simp_all)
  have "int_at (message n 1) = int n" using assms(8) by (simp add: message_def int_at_message)
  then show ?thesis
    using assms(6-8) r
    by (simp add: client_func_def Let_def snd all_are_message int_at_message sent_def pending_def assms(1))
qed

theorem client_func_answered_witness:
  "\<exists>buf' w'. client_func 3 (message 8 1) (replicate 8 0) 8 (peer_world [message 8 2]) = Some (Done (0, buf') w')"
proof -
  have "socks (peer_world [message 8 2]) 3 = Some (Connected (peer_conn [message 8 2] [Eof]))" by (simp add: peer_world_def)
  then show ?thesis
    using client_func_answered [of "peer_world [message 8 2]" 3 _ "message 8 2" "[Eof]" 8 "replicate 8 0"]
    by (auto simp: peer_conn_def)
qed

text \<open>C40. A peer that closes in the middle of the answer leaves the client in an endless loop: the call has no
  result, whereas the server's loop would have ended.\<close>

theorem client_loop_diverges:
  assumes "socks w sockfd = Some (Connected c)" and "avail (inq c) = bs" and "stop_of (inq c) = Closed"
    and "0 \<le> num_read" and "num_read + int (length bs) < num_to_read" and "num_to_read \<le> int (length buf)" and "num_to_read \<le> int_max"
  shows "read_loop False sockfd num_to_read num_read buf w = None"
  using assms
proof (induction "length bs" arbitrary: bs num_read buf w c rule: less_induct)
  case less
  show ?case
  proof (cases "bs = []")
    case True
    then have "ended sockfd w" using less.prems by (auto simp: ended_def)
    then show ?thesis using read_loop_ended [of False sockfd num_to_read num_read buf w] less.prems True
      by (cases "read_loop False sockfd num_to_read num_read buf w") auto
  next
    case False
    have lt: "num_read < num_to_read" "0 < nat num_to_read" using less.prems by auto
    obtain k where k: "0 < k" "k \<le> nat num_to_read" "k \<le> length bs"
      "read_event (nat num_to_read) (inq c) = Some (Got (take k bs), drain k (inq c))"
      using read_event_avail [of "nat num_to_read" "inq c"] lt False less.prems(2) by auto
    let ?w = "put_conn sockfd (c\<lparr>inq := drain k (inq c)\<rparr>) w"
    have r: "sys_read sockfd (nat num_to_read) w = Done (int k, take k bs) ?w"
      using less.prems(1) lt k by (simp add: sys_read_def min_def)
    have step: "read_loop False sockfd num_to_read num_read buf w =
      read_loop False sockfd num_to_read (num_read + int k) (patch (nat num_read) (take k bs) buf) ?w"
      using less.prems lt k by (subst read_loop.simps) (auto simp: r min_def Let_def)
    have shorter: "length (drop k bs) < length bs" using k by simp
    show ?thesis
      unfolding step
      by (rule less.hyps [OF shorter, of _ "c\<lparr>inq := drain k (inq c)\<rparr>"]) (use less.prems k in auto)
  qed
qed

theorem client_loop_diverges_witness:
  "read_loop False 3 8 4 (replicate 8 0) (peer_world [[2]]) = None"
  by (rule client_loop_diverges [of _ _ "peer_conn [[2]] [Eof]" "[2]"]) (simp_all add: peer_world_def peer_conn_def)

end
