(* ===== verification/Echo_Main.thy ===== *)
theory Echo_Main
  imports Echo
begin

text \<open>
  The programs my_client and my_server of sample_client_socket: their \<open>main\<close> functions around \<open>func\<close> of
  theory Echo, and what the two make of each other. The clock that my_client reads and the messages on
  the terminal are left out.
\<close>

section \<open>The program my_client\<close>

text \<open>The size of the buffers and the number of rounds, from \<open>argv\<close> (without the program's name) or the defaults.\<close>

definition arg_or :: "int \<Rightarrow> cstr list \<Rightarrow> nat \<Rightarrow> (int, 'r, 'l, world) cmd" where
  "arg_or dflt argv k =
     (if k < length argv then chain (bye_when (atoi (argv ! k) \<le> 0) (-1)) (\<lambda>_. done_with (atoi (argv ! k)))
      else done_with dflt)"

text \<open>A call that loops for ever does not return either, like one that blocks.\<close>

definition settle :: "('a, 's) outcome option \<Rightarrow> ('a, 's) outcome" where
  "settle r = (case r of None \<Rightarrow> Blocked | Some m \<Rightarrow> m)"

text \<open>\<open>for ( int i = 0; i < niters; i++ ) { func(sockfd, sendbuf, rcvbuf, n); }\<close>, the status ignored.\<close>

fun client_rounds :: "nat \<Rightarrow> int \<Rightarrow> ptr \<Rightarrow> ptr \<Rightarrow> int \<Rightarrow> (unit, 'r, 'l, world) cmd" where
  "client_rounds 0 sockfd sendbuf rcvbuf n = done_with ()"
| "client_rounds (Suc k) sockfd sendbuf rcvbuf n =
     chain (call (load sendbuf 0 (nat n))) (\<lambda>snd.
     chain (call (load rcvbuf 0 (nat n))) (\<lambda>rcv.
     chain (call (\<lambda>w. settle (client_func sockfd snd rcv n w))) (\<lambda>(_, rcv).
     chain (call (store rcvbuf 0 rcv)) (\<lambda>_.
     client_rounds k sockfd sendbuf rcvbuf n))))"

text \<open>\<open>main\<close>; its one local that BYE looks at is \<open>sockfd\<close>. The product that is printed is an \<open>int\<close>.\<close>

definition client_main :: "cstr list \<Rightarrow> world \<Rightarrow> (int, world) outcome" where
  "client_main argv = proc (-1 :: int)
     (chain (arg_or 65536 argv 0) (\<lambda>n.
      chain (arg_or 16 argv 1) (\<lambda>niters.
      chain (call (sys_malloc (size_of_int n))) (\<lambda>sendbuf.
      chain (bye_when (sendbuf = Null) (-1)) (\<lambda>_.
      chain (call (sys_malloc (size_of_int n))) (\<lambda>rcvbuf.
      chain (bye_when (rcvbuf = Null) (-1)) (\<lambda>_.
      chain (call sys_socket) (\<lambda>sockfd.
      chain (upd_loc (\<lambda>_. sockfd)) (\<lambda>_.
      chain (bye_when (sockfd = -1) (-1)) (\<lambda>_.
      chain (call (sys_connect sockfd 0x7f000001 8080)) (\<lambda>r.
      chain (bye_when (r \<noteq> 0) (-1)) (\<lambda>_.
      chain (call (store sendbuf 0 (replicate (nat n) 1))) (\<lambda>_.
      chain (call (store sendbuf 0 (le32 (word_of_int n)))) (\<lambda>_.
      chain (client_rounds (nat niters) sockfd sendbuf rcvbuf n) (\<lambda>_.
      if int_max < niters * n then fault Signed_overflow else done_with 0)))))))))))))))
     (\<lambda>status sockfd w. if sockfd < 0 then obind (sys_close sockfd w) (\<lambda>_. Done status) else Done status w)"

section \<open>The program my_server\<close>

text \<open>The size of the server's buffer.\<close>

definition server_bufsz :: int where
  "server_bufsz = 1048576"

text \<open>\<open>main\<close>; BYE looks at \<open>sockfd\<close> and \<open>buf\<close>. \<open>exit\<close> inside \<open>func\<close> ends the program, so a return of \<open>func\<close> is
  the result -1, and BYE is only reached by the failures before it. \<open>sockfd\<close> has no initial value and is set before any use.\<close>

record server_vars =
  sv_sockfd :: int
  sv_buf :: ptr

definition server_main :: "world \<Rightarrow> (int, world) outcome" where
  "server_main = proc \<lparr>sv_sockfd = 0, sv_buf = Null\<rparr>
     (chain (call sys_socket) (\<lambda>sockfd.
      chain (upd_loc (\<lambda>l. l\<lparr>sv_sockfd := sockfd\<rparr>)) (\<lambda>_.
      chain (bye_when (sockfd = -1) (-1)) (\<lambda>_.
      chain (call (sys_bind sockfd 8080)) (\<lambda>r.
      chain (bye_when (r \<noteq> 0) (-1)) (\<lambda>_.
      chain (call (sys_listen sockfd)) (\<lambda>r.
      chain (return_when (r \<noteq> 0) 0) (\<lambda>_.
      chain (call (sys_accept sockfd)) (\<lambda>connfd.
      chain (bye_when (connfd < 0) (-1)) (\<lambda>_.
      chain (call (sys_malloc (size_of_int server_bufsz))) (\<lambda>buf.
      chain (upd_loc (\<lambda>l. l\<lparr>sv_buf := buf\<rparr>)) (\<lambda>_.
      chain (bye_when (buf = Null) (-1)) (\<lambda>_.
      chain (call (load buf 0 (nat server_bufsz))) (\<lambda>bytes.
      chain (call (\<lambda>w. settle (server_func connfd bytes server_bufsz 0 w))) (\<lambda>_.
      return_with (-1))))))))))))))))
     (\<lambda>status l w. obind (if sv_sockfd l < 0 then sys_close (sv_sockfd l) w else Done 0 w) (\<lambda>_ w1.
        obind (free_all [sv_buf l] w1) (\<lambda>_ w2. Done status w2)))"

section \<open>Runs\<close>

text \<open>The rounds of the client, each answered in one segment.\<close>

lemma client_rounds_run:
  assumes "a \<noteq> b" "4 \<le> n" "n < 2 ^ 31"
  shows "socks w fd = Some (Connected c) \<Longrightarrow> inq c = replicate k (Data (message n 2)) @ q \<Longrightarrow> sndq c = [] \<Longrightarrow>
   heap w a = Some (message n 1) \<Longrightarrow> heap w b = Some rcv \<Longrightarrow> length rcv = n \<Longrightarrow>
   \<exists>rcv'. length rcv' = n \<and> (client_rounds k fd (Ptr a) (Ptr b) (int n) :: (unit, 'r, 'l, world) cmd) (l, w) =
     Val () (l, (put_conn fd (c\<lparr>inq := q, outb := outb c @ concat (replicate k (message n 1))\<rparr>) w)\<lparr>heap := (heap w)(b \<mapsto> rcv')\<rparr>)"
proof (induction k arbitrary: w c rcv)
  case 0
  then have "put_conn fd (c\<lparr>inq := q, outb := outb c @ concat (replicate 0 (message n 1))\<rparr>) w = w"
    using put_conn_same [OF 0(1)] by (cases c) simp
  moreover have "w\<lparr>heap := (heap w)(b \<mapsto> rcv)\<rparr> = w" using 0(5) by (cases w) (simp add: fun_upd_idem)
  ultimately show ?case using 0(6) by (intro exI [of _ rcv]) (simp only: client_rounds.simps exec_done_with simp_thms)
next
  case (Suc k)
  let ?q = "replicate k (Data (message n 2)) @ q"
  let ?c = "c\<lparr>inq := ?q, outb := outb c @ message n 1\<rparr>"
  let ?w = "(put_conn fd ?c w)\<lparr>heap := (heap w)(b \<mapsto> message n 2)\<rparr>"
  have f: "client_func fd (message n 1) rcv (int n) w = Some (Done (0, message n 2) (put_conn fd ?c w))"
    by (rule client_func_exact) (use Suc.prems assms in simp_all)
  have "(client_rounds (Suc k) fd (Ptr a) (Ptr b) (int n) :: (unit, 'r, 'l, world) cmd) (l, w) =
      (client_rounds k fd (Ptr a) (Ptr b) (int n) :: (unit, 'r, 'l, world) cmd) (l, ?w)"
    using Suc.prems assms by (simp add: exec_chain load_def f settle_def store_def)
  moreover have "\<exists>rcv'. length rcv' = n \<and>
    (client_rounds k fd (Ptr a) (Ptr b) (int n) :: (unit, 'r, 'l, world) cmd) (l, ?w) =
     Val () (l, (put_conn fd (?c\<lparr>inq := q, outb := outb ?c @ concat (replicate k (message n 1))\<rparr>) ?w)\<lparr>heap := (heap ?w)(b \<mapsto> rcv')\<rparr>)"
    by (rule Suc.IH [where rcv = "message n 2"]) (use Suc.prems assms in simp_all)
  moreover have "(put_conn fd (?c\<lparr>inq := q, outb := outb ?c @ concat (replicate k (message n 1))\<rparr>) ?w)\<lparr>heap := (heap ?w)(b \<mapsto> rcv')\<rparr> =
     (put_conn fd (c\<lparr>inq := q, outb := outb c @ concat (replicate (Suc k) (message n 1))\<rparr>) w)\<lparr>heap := (heap w)(b \<mapsto> rcv')\<rparr>" for rcv'
    by (cases c) (simp add: put_conn_def)
  ultimately show ?case by (simp only: simp_thms)
qed

lemma server_bufsz_facts: "0 < server_bufsz" "server_bufsz \<le> int_max" "nat server_bufsz \<le> ptrdiff_max"
    "unat (size_of_int server_bufsz) = nat server_bufsz"
  by (simp_all add: server_bufsz_def ptrdiff_max_def size_of_int_def)

lemma client_main_run:
  assumes "atoi a1 = int n" and "atoi a2 = int k" and "4 \<le> n" and "n < 2 ^ 31" and "0 < k"
    and "mallocs w = []" and "fds w = fd # r" and "0 \<le> fd"
    and "listeners w 0x7f000001 8080 = Some c" and "inq c = replicate k (Data (message n 2)) @ q" and "sndq c = []"
  shows "\<exists>w'. client_main [a1, a2] w = (if k * n < 2 ^ 31 then Done 0 w' else Undef Signed_overflow) \<and>
    socks w' fd = Some (Connected (c\<lparr>inq := q, outb := outb c @ concat (replicate k (message n 1))\<rparr>)) \<and>
    (\<exists>d. heap w' = (heap w)(next_id w \<mapsto> message n 1, Suc (next_id w) \<mapsto> d))"
proof -
  let ?a = "next_id w" and ?b = "Suc (next_id w)"
  let ?junk = "\<lambda>i. map (junk w i) [0..<n]"
  have u: "unat (size_of_int (int n)) = n" "n \<le> ptrdiff_max"
    using assms(4) by (simp_all add: size_of_int_def ptrdiff_max_def unsigned_of_nat take_bit_nat_eq_self)
  define w1 where "w1 = (put_conn fd c (w\<lparr>mallocs := [], next_id := Suc (Suc ?a), heap := (heap w)(?a \<mapsto> ?junk ?a, ?b \<mapsto> ?junk ?b), fds := r,
      socks := (socks w)(fd \<mapsto> Unconnected)\<rparr>))\<lparr>heap := (heap w)(?b \<mapsto> ?junk ?b, ?a \<mapsto> le32 (of_nat n) @ replicate (n - 4) 1)\<rparr>"
  have "\<exists>d. length d = n \<and> (client_rounds k fd (Ptr ?a) (Ptr ?b) (int n) :: (unit, int, int, world) cmd) (fd, w1) =
     Val () (fd, (put_conn fd (c\<lparr>inq := q, outb := outb c @ concat (replicate k (message n 1))\<rparr>) w1)\<lparr>heap := (heap w1)(?b \<mapsto> d)\<rparr>)"
    by (rule client_rounds_run [where rcv = "?junk ?b"]) (use assms(3,4,10,11) in \<open>simp_all add: w1_def message_def\<close>)
  then obtain d w2 where d: "(client_rounds k fd (Ptr ?a) (Ptr ?b) (int n) :: (unit, int, int, world) cmd) (fd, w1) = Val () (fd, w2)"
    "socks w2 fd = Some (Connected (c\<lparr>inq := q, outb := outb c @ concat (replicate k (message n 1))\<rparr>))"
    "heap w2 = (heap w)(?a \<mapsto> message n 1, ?b \<mapsto> d)"
    by (auto simp: w1_def fun_upd_twist message_def)
  have ov: "int_max < int k * int n \<longleftrightarrow> \<not> k * n < 2 ^ 31"
    by (simp flip: of_nat_mult) linarith
  have conn: "sys_connect fd 0x7f000001 8080 v = Done 0 (put_conn fd c v)"
    if "listeners v = listeners w" "socks v fd = Some Unconnected" for v
    using assms(9) that by (simp add: sys_connect_def)
  note conn' = conn [simplified]
  have "client_main [a1, a2] w = (if k * n < 2 ^ 31 then Done 0 w2 else Undef Signed_overflow)"
    using assms(1-8) u
    apply (simp add: client_main_def proc_def arg_or_def exec_chain sys_malloc_def sys_socket_def conn' store_def ov [simplified] w1_def [symmetric])
    apply (simp add: d(1))
    done
  then show ?thesis using d by auto
qed

lemma server_main_run:
  assumes "fds w = fd # connfd # r" and "0 \<le> fd" and "0 \<le> connfd" and "fd \<noteq> connfd" and "\<not> taken w 8080"
    and "backlog w 8080 = c # cs" and "mallocs w = []"
    and "inq c = ones ns @ [Eof]" and "sndq c = []" and "ns \<noteq> []" and "list_all (fits_buffer server_bufsz) ns"
    and "int (length ns) \<le> int_max"
  shows "\<exists>w'. server_main w = Done (-1) w' \<and> sent connfd w' = outb c @ concat (map (\<lambda>n. message n 2) ns)"
proof -
  let ?b = "map (junk w (next_id w)) [0..<nat server_bufsz]"
  define w1 where "w1 = put_conn connfd c (w\<lparr>socks := (socks w)(fd \<mapsto> Listening 8080), fds := r, backlog := (backlog w)(8080 := cs)\<rparr>)"
  define w2 where "w2 = w1\<lparr>mallocs := [], next_id := Suc (next_id w), heap := (heap w)(next_id w \<mapsto> ?b)\<rparr>"
  have "socks w2 connfd = Some (Connected c)" "szb \<le> int (length ?b)" if "szb = server_bufsz" for szb
    using that server_bufsz_facts(1) by (simp_all add: w1_def w2_def)
  then obtain w' where w': "server_func connfd ?b server_bufsz 0 w2 = Some (Done () w')"
    "sent connfd w' = outb c @ concat (map (\<lambda>n. message n 2) ns)"
    using server_func_run [of w2 connfd c ns server_bufsz ?b] assms(8-12) server_bufsz_facts(2) by blast
  have m: "sys_malloc (size_of_int server_bufsz) w1 = Done (Ptr (next_id w)) w2"
    using server_bufsz_facts assms(7) by (simp add: sys_malloc_def w1_def w2_def)
  have l: "load (Ptr (next_id w)) 0 (nat server_bufsz) w2 = Done ?b w2"
    by (simp add: load_def w2_def)
  have "server_main w = Done (-1) w'"
    using assms(1-6) w'(1)
    by (simp add: server_main_def proc_def exec_chain sys_socket_def sys_bind_def sys_listen_def sys_accept_def
        w1_def [symmetric] m l settle_def)
  then show ?thesis using w'(2) by blast
qed

section \<open>Properties\<close>

text \<open>C35. A run of \<open>my_client\<close> against a server that answers every round: it sends its message that many times. It
  ends with 0, with both buffers allocated and the connection open; but if the product of size and rounds,
  which it prints, is no \<open>int\<close>, the run ends in an overflow.\<close>

theorem client_main_session:
  assumes "atoi a1 = int n" and "atoi a2 = int k" and "4 \<le> n" and "n < 2 ^ 31" and "0 < k"
    and "mallocs w = []" and "fds w = fd # r" and "0 \<le> fd"
    and "listeners w 0x7f000001 8080 = Some c" and "inq c = replicate k (Data (message n 2)) @ q" and "sndq c = []"
  shows "\<exists>w'. client_main [a1, a2] w = (if k * n < 2 ^ 31 then Done 0 w' else Undef Signed_overflow) \<and>
    socks w' fd = Some (Connected (c\<lparr>inq := q, outb := outb c @ concat (replicate k (message n 1))\<rparr>)) \<and>
    (\<exists>d. heap w' = (heap w)(next_id w \<mapsto> message n 1, Suc (next_id w) \<mapsto> d))"
  by (rule client_main_run [OF assms])

definition client_world :: world where
  "client_world = (peer_world [])\<lparr>listeners := (\<lambda>_ _. Some (peer_conn [message 8 2, message 8 2] [Eof]))\<rparr>"

theorem client_main_session_witness:
  "\<exists>w'. client_main [lit ''8'', lit ''2''] client_world = Done 0 w'"
proof -
  have "atoi (lit ''8'') = int 8" "atoi (lit ''2'') = int 2"
    by (simp_all add: atoi_def lit_def is_space_def is_digit_def digits_value_def)
  moreover have "replicate 2 x = [x, x]" for x :: rcv_event by (simp add: numeral_2_eq_2)
  ultimately show ?thesis
    using client_main_session [of "lit ''8''" 8 "lit ''2''" 2 client_world 3 "[]" "peer_conn [message 8 2, message 8 2] [Eof]" "[Eof]"]
    by (simp add: client_world_def peer_world_def peer_conn_def) blast
qed

text \<open>A run of \<open>my_server\<close>: a client connects, sends messages and closes; all of them come back and the program
  ends with the code -1.\<close>

theorem server_main_session:
  assumes "fds w = fd # connfd # r" and "0 \<le> fd" and "0 \<le> connfd" and "fd \<noteq> connfd" and "\<not> taken w 8080"
    and "backlog w 8080 = c # cs" and "mallocs w = []"
    and "inq c = ones ns @ [Eof]" and "sndq c = []" and "ns \<noteq> []" and "list_all (fits_buffer server_bufsz) ns"
    and "int (length ns) \<le> int_max"
  shows "\<exists>w'. server_main w = Done (-1) w' \<and> sent connfd w' = outb c @ concat (map (\<lambda>n. message n 2) ns)"
  by (rule server_main_run [OF assms])

definition server_world :: "nat list \<Rightarrow> world" where
  "server_world ns = (peer_world [])\<lparr>fds := [4, 5], backlog := (\<lambda>_. [peer_conn (map (\<lambda>n. message n 1) ns) [Eof]])\<rparr>"

lemma ones_peer [simp]: "inq (peer_conn (map (\<lambda>n. message n 1) ns) [Eof]) = ones ns @ [Eof]"
  "sndq (peer_conn bss ending) = []" "outb (peer_conn bss ending) = []"
  by (simp_all add: peer_conn_def ones_def)

lemma server_world_simps [simp]:
  "fds (server_world ns) = [4, 5]" "\<not> taken (server_world ns) port" "mallocs (server_world ns) = []"
  "backlog (server_world ns) port = [peer_conn (map (\<lambda>n. message n 1) ns) [Eof]]"
  by (simp_all add: server_world_def peer_world_def)

theorem server_main_session_witness:
  "\<exists>w'. server_main (server_world [6, 8]) = Done (-1) w' \<and> sent 5 w' = message 6 2 @ message 8 2"
proof -
  have "concat (map (\<lambda>n. message n 2) [6, 8]) = message 6 2 @ message 8 2" by simp
  then show ?thesis
    using server_main_session [of "server_world [6, 8]" 4 5 "[]" "peer_conn (map (\<lambda>n. message n 1) [6, 8]) [Eof]" "[]" "[6, 8]"]
    by (simp add: fits_buffer_def server_bufsz_def del: list.map concat.simps)
qed

text \<open>C36. The two programs fit each other: if each side gets the writes of the other one by one, the client ends with 0,
  and what each sends is what the other received, byte for byte.\<close>

theorem echo_programs_agree:
  assumes "atoi a1 = int n" and "atoi a2 = int k" and "0 < k" and "k * n < 2 ^ 31" and "fits_buffer server_bufsz n"
    and client: "mallocs w = []" "fds w = fd # r" "0 \<le> fd" "listeners w 0x7f000001 8080 = Some cc"
    and server: "mallocs v = []" "fds v = lfd # connfd # r'" "0 \<le> lfd" "0 \<le> connfd" "lfd \<noteq> connfd" "\<not> taken v 8080" "backlog v 8080 = sc # cs"
    and conns: "cc = peer_conn (replicate k (message n 2)) [Eof]" "sc = peer_conn (replicate k (message n 1)) [Eof]"
  shows "\<exists>w' v'. client_main [a1, a2] w = Done 0 w' \<and> server_main v = Done (-1) v' \<and>
    sent fd w' = avail (inq sc) \<and> sent connfd v' = avail (inq cc)"
proof -
  have n: "4 \<le> n" "n < 2 ^ 31" "4 < n" using assms(5) server_bufsz_facts(2) by (auto simp: fits_buffer_def)
  have "k * 1 \<le> k * n" using n by (intro mult_le_mono) simp_all
  then have "k < 2 ^ 31" using assms(4) by linarith
  then have k: "int (length (replicate k n)) \<le> int_max" by simp
  have cq: "inq cc = replicate k (Data (message n 2)) @ [Eof]" "sndq cc = []" "outb cc = []" "avail (inq cc) = concat (replicate k (message n 2))"
    using avail_map_Data [of "replicate k (message n 2)"] by (simp_all add: conns peer_conn_def)
  have sq: "inq sc = ones (replicate k n) @ [Eof]" "sndq sc = []" "outb sc = []" "avail (inq sc) = concat (replicate k (message n 1))"
    using avail_map_Data [of "replicate k (message n 1)"] by (simp_all add: conns peer_conn_def ones_def)
  obtain w' where w': "client_main [a1, a2] w = Done 0 w'" "sent fd w' = concat (replicate k (message n 1))"
    using client_main_run [OF assms(1,2) n(1,2) assms(3) client cq(1,2)] assms(4) cq(3) by (auto simp: sent_def)
  obtain v' where "server_main v = Done (-1) v'" "sent connfd v' = concat (map (\<lambda>n. message n 2) (replicate k n))"
    using server_main_run [OF server(2-7,1) sq(1,2) _ _ k] assms(3,5) sq(3) by (auto simp: list_all_iff)
  then show ?thesis using w' cq(4) sq(4) by auto
qed

theorem echo_programs_agree_witness:
  "\<exists>w' v'. client_main [lit ''8'', lit ''2''] client_world = Done 0 w' \<and> server_main (server_world [8, 8]) = Done (-1) v' \<and>
     sent 5 v' = message 8 2 @ message 8 2"
proof -
  have two: "replicate 2 x = [x, x]" for x :: "'a" by (simp add: numeral_2_eq_2)
  have "atoi (lit ''8'') = int 8" "atoi (lit ''2'') = int 2"
    by (simp_all add: atoi_def lit_def is_space_def is_digit_def digits_value_def)
  then show ?thesis
    using echo_programs_agree [of "lit ''8''" 8 "lit ''2''" 2 client_world 3 "[]" "peer_conn [message 8 2, message 8 2] [Eof]"
        "server_world [8, 8]" 4 5 "[]" "peer_conn [message 8 1, message 8 1] [Eof]" "[]"]
    by (simp add: two fits_buffer_def server_bufsz_def client_world_def peer_world_def peer_conn_def) blast
qed

end
