(* ===== verification/Chat.thy ===== *)
theory Chat
  imports Machine
begin

text \<open>
  The two chat programs client.c and server.c of sample_client_socket. The keyboard is a list of
  characters (an exhausted one gives \<open>EOF\<close> for ever), the terminal the list of strings that
  \<open>printf\<close> shows for the other side's messages; the fixed prompts are left out. Neither program checks that a
  line fits its buffer or that what it shows is terminated.
\<close>

section \<open>Lines\<close>

text \<open>\<open>while ((buff[n++] = getchar()) != '\n')\<close> with \<open>room\<close> bytes left in \<open>buff\<close>: the bytes stored and the rest of the
  keyboard, \<open>None\<close> when the loop writes beyond the buffer. \<open>EOF\<close> is stored as \<open>(char) -1\<close>.\<close>

fun key_line :: "nat \<Rightarrow> byte list \<Rightarrow> (byte list \<times> byte list) option" where
  "key_line 0 keys = None"
| "key_line (Suc room) [] = map_option (\<lambda>(line, rest). (0xff # line, rest)) (key_line room [])"
| "key_line (Suc room) (k # keys) =
     (if k = 10 then Some ([k], keys) else map_option (\<lambda>(line, rest). (k # line, rest)) (key_line room keys))"

text \<open>A buffer of \<open>MAX\<close> bytes, cleared before something is put at its front.\<close>

definition chat_max :: nat where
  "chat_max = 80"

definition chat_buf :: "byte list \<Rightarrow> byte list" where
  "chat_buf bs = bs @ replicate (chat_max - length bs) 0"

text \<open>\<open>strncmp(buff, "exit", 4) == 0\<close>.\<close>

definition is_exit :: "byte list \<Rightarrow> bool" where
  "is_exit buff \<longleftrightarrow> take 4 buff = lit ''exit''"

text \<open>\<open>bzero\<close>, \<open>read\<close> and \<open>printf("%s", buff)\<close>: the buffer and what is shown.\<close>

definition chat_receive :: "int \<Rightarrow> world \<Rightarrow> (byte list \<times> cstr, world) outcome" where
  "chat_receive sockfd w = obind (sys_read sockfd chat_max w) (\<lambda>(nr, bs) w1.
     let buff = chat_buf bs in
     if 0 \<notin> set buff then Undef Unterminated else Done (buff, takeWhile (\<lambda>b. b \<noteq> 0) buff) w1)"

lemma key_line_shorter: "key_line room keys = Some (line, rest) \<Longrightarrow> length rest < length keys"
proof (induction room keys arbitrary: line rule: key_line.induct)
  case (2 room)
  then show ?case by auto
next
  case (3 room k keys)
  then show ?case by (force split: if_splits)
qed simp

section \<open>The programs\<close>

text \<open>\<open>func\<close> of client.c. Every round takes a line from the keyboard, so the loop ends: by the word \<open>exit\<close>, or
  beyond the end of the buffer when the keyboard is exhausted.\<close>

function chat_client :: "int \<Rightarrow> byte list \<Rightarrow> world \<Rightarrow> (cstr list, world) outcome" where
  "chat_client sockfd keys w = (case key_line chat_max keys of
       None \<Rightarrow> Undef Out_of_bounds
     | Some (line, rest) \<Rightarrow>
         obind (sys_send sockfd (chat_buf line) w) (\<lambda>nw w1.
         obind (chat_receive sockfd w1) (\<lambda>(buff, shown) w2.
         if is_exit buff then Done [shown] w2
         else obind (chat_client sockfd rest w2) (\<lambda>more. Done (shown # more)))))"
  by pat_completeness auto
termination
  by (relation "measure (\<lambda>(sockfd, keys, w). length keys)") (auto dest: key_line_shorter)

text \<open>\<open>func\<close> of server.c, which answers and looks for \<open>exit\<close> in its own line.\<close>

function chat_server :: "int \<Rightarrow> byte list \<Rightarrow> world \<Rightarrow> (cstr list, world) outcome" where
  "chat_server sockfd keys w =
     obind (chat_receive sockfd w) (\<lambda>(buff, shown) w1. case key_line chat_max keys of
       None \<Rightarrow> Undef Out_of_bounds
     | Some (line, rest) \<Rightarrow>
         obind (sys_send sockfd (chat_buf line) w1) (\<lambda>nw w2.
         if is_exit (chat_buf line) then Done [shown] w2
         else obind (chat_server sockfd rest w2) (\<lambda>more. Done (shown # more))))"
  by pat_completeness auto
termination
  by (relation "measure (\<lambda>(sockfd, keys, w). length keys)") (auto dest: key_line_shorter)

declare chat_client.simps [simp del] chat_server.simps [simp del]

text \<open>The \<open>main\<close> functions: what was shown, or \<open>None\<close> for an \<open>exit(0)\<close> before the chat.\<close>

definition chat_client_main :: "byte list \<Rightarrow> world \<Rightarrow> (cstr list option, world) outcome" where
  "chat_client_main keys = proc ()
     (chain (call sys_socket) (\<lambda>sockfd.
      chain (return_when (sockfd = -1) None) (\<lambda>_.
      chain (call (sys_connect sockfd 0x7f000001 8080)) (\<lambda>r.
      chain (return_when (r \<noteq> 0) None) (\<lambda>_.
      chain (call (chat_client sockfd keys)) (\<lambda>shown.
      chain (call (sys_close sockfd)) (\<lambda>_.
      return_with (Some shown))))))))
     (\<lambda>status l w. Done None w)"

definition chat_server_main :: "byte list \<Rightarrow> world \<Rightarrow> (cstr list option, world) outcome" where
  "chat_server_main keys = proc ()
     (chain (call sys_socket) (\<lambda>sockfd.
      chain (return_when (sockfd = -1) None) (\<lambda>_.
      chain (call (sys_bind sockfd 8080)) (\<lambda>r.
      chain (return_when (r \<noteq> 0) None) (\<lambda>_.
      chain (call (sys_listen sockfd)) (\<lambda>r.
      chain (return_when (r \<noteq> 0) None) (\<lambda>_.
      chain (call (sys_accept sockfd)) (\<lambda>connfd.
      chain (return_when (connfd < 0) None) (\<lambda>_.
      chain (call (chat_server connfd keys)) (\<lambda>shown.
      chain (call (sys_close sockfd)) (\<lambda>_.
      return_with (Some shown))))))))))))
     (\<lambda>status l w. Done None w)"

section \<open>Lines and rounds\<close>

lemma key_line_typed: "10 \<notin> set l \<Longrightarrow> length l < room \<Longrightarrow> key_line room (l @ 10 # keys) = Some (l @ [10], keys)"
proof (induction l arbitrary: room)
  case Nil
  then show ?case by (cases room) simp_all
next
  case (Cons b l)
  then show ?case by (cases room) auto
qed

lemma key_line_eof: "key_line room [] = None"
  by (induction room) simp_all

lemma key_line_long: "10 \<notin> set l \<Longrightarrow> room \<le> length l \<Longrightarrow> key_line room (l @ keys) = None"
proof (induction l arbitrary: room)
  case Nil
  then show ?case by simp
next
  case (Cons b l)
  then show ?case by (cases room) auto
qed

lemma key_line_ends: "10 \<notin> set l \<Longrightarrow> key_line room l = None"
proof (induction l arbitrary: room)
  case Nil
  show ?case by (rule key_line_eof)
next
  case (Cons b l)
  then show ?case by (cases room) auto
qed

text \<open>A line that fits with its newline and a NUL, and what the two sides make of it.\<close>

definition text_line :: "byte list \<Rightarrow> bool" where
  "text_line l \<longleftrightarrow> 10 \<notin> set l \<and> no_nul l \<and> length l + 1 < chat_max"

definition typed :: "byte list list \<Rightarrow> byte list" where
  "typed ls = concat (map (\<lambda>l. l @ [10]) ls)"

definition packet :: "byte list \<Rightarrow> byte list" where
  "packet l = chat_buf (l @ [10])"

lemma length_chat_buf: "length bs \<le> chat_max \<Longrightarrow> length (chat_buf bs) = chat_max"
  by (simp add: chat_buf_def)

lemma chat_buf_id: "length bs = chat_max \<Longrightarrow> chat_buf bs = bs"
  by (simp add: chat_buf_def)

lemma chat_max_pos [simp]: "0 < chat_max" "chat_max \<noteq> 0"
  by (simp_all add: chat_max_def)

lemma packet_facts:
  assumes "text_line l"
  shows "length (packet l) = chat_max" "packet l \<noteq> []" "0 \<in> set (packet l)" "takeWhile (\<lambda>b. b \<noteq> 0) (packet l) = l @ [10]"
proof -
  have l: "length l + 1 < chat_max" "0 \<notin> set l" using assms by (simp_all add: text_line_def no_nul_def)
  show "length (packet l) = chat_max" using l(1) by (simp add: packet_def length_chat_buf)
  then show "packet l \<noteq> []" by (metis chat_max_pos(1) length_greater_0_conv)
  obtain r where r: "packet l = l @ 10 # 0 # r"
    using l(1) by (cases "chat_max - length (l @ [10])") (auto simp: packet_def chat_buf_def)
  show "0 \<in> set (packet l)" by (simp add: r)
  have "takeWhile (\<lambda>b. b \<noteq> 0) (l @ 10 # 0 # r) = l @ [10]"
    using l(2) by (subst takeWhile_append2) auto
  then show "takeWhile (\<lambda>b. b \<noteq> 0) (packet l) = l @ [10]" by (simp only: r)
qed

lemma key_line_typed_line: "text_line l \<Longrightarrow> key_line chat_max (typed (l # ls)) = Some (l @ [10], typed ls)"
  by (simp add: typed_def text_line_def key_line_typed)

lemma chat_receive_packet:
  assumes "socks w sockfd = Some (Connected c)" "inq c = Data (packet l) # q" "text_line l"
  shows "chat_receive sockfd w = Done (packet l, l @ [10]) (put_conn sockfd (c\<lparr>inq := q\<rparr>) w)"
  using assms packet_facts [OF assms(3)] by (simp add: chat_receive_def sys_read_def chat_buf_id)

text \<open>No line comes from the keyboard, or the line received fills the buffer.\<close>

lemma chat_client_no_line: "key_line chat_max keys = None \<Longrightarrow> chat_client sockfd keys w = Undef Out_of_bounds"
  by (subst chat_client.simps) simp

lemma chat_server_no_line:
  assumes "socks w sockfd = Some (Connected c)" "inq c = Data (packet l) # q" "text_line l" "key_line chat_max keys = None"
  shows "chat_server sockfd keys w = Undef Out_of_bounds"
  using chat_receive_packet [OF assms(1-3)] assms(4) by (subst chat_server.simps) simp

lemma chat_receive_full:
  assumes "socks w sockfd = Some (Connected c)" "inq c = Data (packet l) # q" "no_nul l" "length l + 1 = chat_max"
  shows "chat_receive sockfd w = Undef Unterminated"
proof -
  have p: "packet l = l @ [10]" "length (packet l) = chat_max" using assms(4) by (simp_all add: packet_def chat_buf_def)
  moreover have "0 \<notin> set (packet l)" "packet l \<noteq> []" using assms(3) by (simp_all add: p no_nul_def)
  ultimately show ?thesis using assms(1,2) by (simp add: chat_receive_def sys_read_def chat_buf_id)
qed

text \<open>The rounds of either program, by induction over the lines.\<close>

lemma chat_client_run:
  "socks w sockfd = Some (Connected c) \<Longrightarrow> sndq c = [] \<Longrightarrow> inq c = map (\<lambda>l. Data (packet l)) (heard @ [bye]) @ q \<Longrightarrow>
   list_all text_line (heard @ [bye]) \<Longrightarrow> list_all text_line said \<Longrightarrow> length said = Suc (length heard) \<Longrightarrow>
   list_all (\<lambda>l. \<not> is_exit (packet l)) heard \<Longrightarrow> is_exit (packet bye) \<Longrightarrow>
   chat_client sockfd (typed said) w = Done (map (\<lambda>l. l @ [10]) (heard @ [bye]))
     (put_conn sockfd (c\<lparr>inq := q, outb := outb c @ concat (map packet said)\<rparr>) w)"
proof (induction heard arbitrary: said w c)
  case Nil
  then obtain l where l: "said = [l]" by (cases said) auto
  have ord: "c\<lparr>outb := x, inq := q\<rparr> = c\<lparr>inq := q, outb := x\<rparr>" for x by (cases c) simp
  have r: "chat_receive sockfd (put_conn sockfd (c\<lparr>outb := outb c @ packet l\<rparr>) w) =
      Done (packet bye, bye @ [10]) (put_conn sockfd (c\<lparr>outb := outb c @ packet l, inq := q\<rparr>) (put_conn sockfd (c\<lparr>outb := outb c @ packet l\<rparr>) w))"
    by (rule chat_receive_packet) (use Nil.prems in simp_all)
  show ?case
    using Nil.prems l r by (subst chat_client.simps) (simp add: key_line_typed_line sys_send_def ord flip: packet_def)
next
  case (Cons a heard)
  then obtain l said' where l: "said = l # said'" by (cases said) auto
  let ?q = "map (\<lambda>l. Data (packet l)) (heard @ [bye]) @ q"
  let ?c = "c\<lparr>outb := outb c @ packet l, inq := ?q\<rparr>"
  have r: "chat_receive sockfd (put_conn sockfd (c\<lparr>outb := outb c @ packet l\<rparr>) w) =
      Done (packet a, a @ [10]) (put_conn sockfd ?c (put_conn sockfd (c\<lparr>outb := outb c @ packet l\<rparr>) w))"
    by (rule chat_receive_packet) (use Cons.prems in simp_all)
  have ih: "chat_client sockfd (typed said') (put_conn sockfd ?c w) = Done (map (\<lambda>l. l @ [10]) (heard @ [bye]))
     (put_conn sockfd (?c\<lparr>inq := q, outb := outb ?c @ concat (map packet said')\<rparr>) (put_conn sockfd ?c w))"
    by (rule Cons.IH) (use Cons.prems l in simp_all)
  have ord: "?c\<lparr>inq := q, outb := x\<rparr> = c\<lparr>inq := q, outb := x\<rparr>" for x by (cases c) simp
  show ?case
    using Cons.prems l r ih by (subst chat_client.simps) (simp add: key_line_typed_line sys_send_def ord flip: packet_def)
qed

lemma chat_server_run:
  "socks w sockfd = Some (Connected c) \<Longrightarrow> sndq c = [] \<Longrightarrow> inq c = map (\<lambda>l. Data (packet l)) heard @ q \<Longrightarrow>
   list_all text_line heard \<Longrightarrow> list_all text_line (said @ [bye]) \<Longrightarrow> length heard = Suc (length said) \<Longrightarrow>
   list_all (\<lambda>l. \<not> is_exit (packet l)) said \<Longrightarrow> is_exit (packet bye) \<Longrightarrow>
   chat_server sockfd (typed (said @ [bye])) w = Done (map (\<lambda>l. l @ [10]) heard)
     (put_conn sockfd (c\<lparr>inq := q, outb := outb c @ concat (map packet (said @ [bye]))\<rparr>) w)"
proof (induction said arbitrary: heard w c)
  case Nil
  then obtain a where a: "heard = [a]" by (cases heard) auto
  have r: "chat_receive sockfd w = Done (packet a, a @ [10]) (put_conn sockfd (c\<lparr>inq := q\<rparr>) w)"
    by (rule chat_receive_packet) (use Nil.prems a in simp_all)
  show ?case
    using Nil.prems a r by (subst chat_server.simps) (simp add: key_line_typed_line sys_send_def flip: packet_def)
next
  case (Cons l said)
  then obtain a heard' where a: "heard = a # heard'" by (cases heard) auto
  let ?q = "map (\<lambda>l. Data (packet l)) heard' @ q"
  let ?c = "c\<lparr>inq := ?q, outb := outb c @ packet l\<rparr>"
  have r: "chat_receive sockfd w = Done (packet a, a @ [10]) (put_conn sockfd (c\<lparr>inq := ?q\<rparr>) w)"
    by (rule chat_receive_packet) (use Cons.prems a in simp_all)
  have ih: "chat_server sockfd (typed (said @ [bye])) (put_conn sockfd ?c w) = Done (map (\<lambda>l. l @ [10]) heard')
     (put_conn sockfd (?c\<lparr>inq := q, outb := outb ?c @ concat (map packet (said @ [bye]))\<rparr>) (put_conn sockfd ?c w))"
    by (rule Cons.IH) (use Cons.prems a in simp_all)
  have ord: "?c\<lparr>inq := q, outb := x\<rparr> = c\<lparr>inq := q, outb := x\<rparr>" for x by (cases c) simp
  show ?case
    using Cons.prems a r ih by (subst chat_server.simps) (simp add: key_line_typed_line sys_send_def ord flip: packet_def)
qed

section \<open>Properties\<close>

text \<open>Lines of the witnesses.\<close>

lemma example_lines:
  "text_line (lit ''hi'')" "text_line (lit ''yes'')" "text_line (lit ''ho'')" "text_line (lit ''exit'')"
  "is_exit (packet (lit ''exit''))" "\<not> is_exit (packet (lit ''ho''))"
  by (simp_all add: text_line_def chat_max_def lit_def is_exit_def packet_def chat_buf_def)

text \<open>C37. The two chat programs, each fed with what the other sends, message by message: each shows the lines typed at
  the other one, both leave with the round in which the server's user types \<open>exit\<close>, and what each has sent is
  what the other had to read.\<close>

theorem chat_programs_agree:
  assumes "list_all text_line client_lines" and "list_all text_line (server_lines @ [bye])" and "length client_lines = Suc (length server_lines)"
    and "list_all (\<lambda>l. \<not> is_exit (packet l)) server_lines" and "is_exit (packet bye)"
    and client: "socks w sockfd = Some (Connected (peer_conn (map packet (server_lines @ [bye])) [Eof]))"
    and server: "socks v connfd = Some (Connected (peer_conn (map packet client_lines) [Eof]))"
  shows "\<exists>w' v'. chat_client sockfd (typed client_lines) w = Done (map (\<lambda>l. l @ [10]) (server_lines @ [bye])) w' \<and>
    chat_server connfd (typed (server_lines @ [bye])) v = Done (map (\<lambda>l. l @ [10]) client_lines) v' \<and>
    sent sockfd w' = concat (map packet client_lines) \<and> sent connfd v' = concat (map packet (server_lines @ [bye]))"
proof -
  let ?cc = "peer_conn (map packet (server_lines @ [bye])) [Eof]" and ?sc = "peer_conn (map packet client_lines) [Eof]"
  have "chat_client sockfd (typed client_lines) w = Done (map (\<lambda>l. l @ [10]) (server_lines @ [bye]))
     (put_conn sockfd (?cc\<lparr>inq := [Eof], outb := outb ?cc @ concat (map packet client_lines)\<rparr>) w)"
    by (rule chat_client_run [OF client]) (use assms(1-5) in \<open>simp_all add: peer_conn_def\<close>)
  moreover have "chat_server connfd (typed (server_lines @ [bye])) v = Done (map (\<lambda>l. l @ [10]) client_lines)
     (put_conn connfd (?sc\<lparr>inq := [Eof], outb := outb ?sc @ concat (map packet (server_lines @ [bye]))\<rparr>) v)"
    by (rule chat_server_run [OF server]) (use assms(1-5) in \<open>simp_all add: peer_conn_def\<close>)
  ultimately show ?thesis by (simp add: sent_def peer_conn_def)
qed

theorem chat_programs_agree_witness:
  "\<exists>w'. chat_client 3 (typed [lit ''hi'', lit ''yes'']) (peer_world [packet (lit ''ho''), packet (lit ''exit'')]) =
     Done [lit ''ho'' @ [10], lit ''exit'' @ [10]] w'"
proof -
  show ?thesis
    using chat_programs_agree [of "[lit ''hi'', lit ''yes'']" "[lit ''ho'']" "lit ''exit''" "peer_world [packet (lit ''ho''), packet (lit ''exit'')]" 3
        "peer_world [packet (lit ''hi''), packet (lit ''yes'')]" 3] example_lines
    by (simp add: peer_world_def) blast
qed

text \<open>C39. Neither program bounds a line. A line of 80 characters or more makes both write beyond their buffer, whatever
  follows it on the keyboard, and so does a keyboard that ends without a newline, however short; the server gets there after
  showing what the client sent first. A line of exactly 79 characters, which the sender's buffer can hold with its
  newline, has no room for a NUL and makes either program, when the other one has sent it, read beyond its own buffer.\<close>

theorem chat_buffer_overruns:
  assumes "socks w sockfd = Some (Connected c)" and "10 \<notin> set l" and "text_line a"
  shows "(chat_max \<le> length l \<longrightarrow> chat_client sockfd (l @ keys) w = Undef Out_of_bounds) \<and>
    (chat_max \<le> length l \<longrightarrow> inq c = Data (packet a) # q \<longrightarrow> chat_server sockfd (l @ keys) w = Undef Out_of_bounds) \<and>
    chat_client sockfd l w = Undef Out_of_bounds \<and>
    (inq c = Data (packet a) # q \<longrightarrow> chat_server sockfd l w = Undef Out_of_bounds) \<and>
    (no_nul l \<longrightarrow> length l + 1 = chat_max \<longrightarrow> inq c = Data (packet l) # q \<longrightarrow>
      chat_server sockfd keys w = Undef Unterminated \<and>
      (sndq c = [] \<longrightarrow> chat_client sockfd (typed (a # ls)) w = Undef Unterminated))"
proof (intro conjI impI)
  show "chat_client sockfd (l @ keys) w = Undef Out_of_bounds" if "chat_max \<le> length l"
    by (rule chat_client_no_line) (rule key_line_long [OF assms(2) that])
  show "chat_server sockfd (l @ keys) w = Undef Out_of_bounds" if "chat_max \<le> length l" "inq c = Data (packet a) # q"
    by (rule chat_server_no_line [OF assms(1) that(2) assms(3)]) (rule key_line_long [OF assms(2) that(1)])
  show "chat_client sockfd l w = Undef Out_of_bounds"
    by (rule chat_client_no_line) (rule key_line_ends [OF assms(2)])
  show "chat_server sockfd l w = Undef Out_of_bounds" if "inq c = Data (packet a) # q"
    by (rule chat_server_no_line [OF assms(1) that assms(3)]) (rule key_line_ends [OF assms(2)])
  assume l: "no_nul l" "length l + 1 = chat_max" "inq c = Data (packet l) # q"
  show "chat_server sockfd keys w = Undef Unterminated"
    using chat_receive_full [OF assms(1) l(3,1,2)] by (subst chat_server.simps) simp
  show "chat_client sockfd (typed (a # ls)) w = Undef Unterminated" if "sndq c = []"
    using chat_receive_full [OF _ _ l(1,2), of "put_conn sockfd (c\<lparr>outb := outb c @ packet a\<rparr>) w" sockfd "c\<lparr>outb := outb c @ packet a\<rparr>" q]
      assms(1,3) l(3) that
    by (subst chat_client.simps) (simp add: key_line_typed_line sys_send_def flip: packet_def)
qed

theorem chat_buffer_overruns_witness:
  "chat_client 3 (replicate 80 97 @ [10]) (peer_world []) = Undef Out_of_bounds \<and>
   chat_server 3 (lit ''hi'') (peer_world [packet (lit ''ho'')]) = Undef Out_of_bounds \<and>
   chat_client 3 (typed [lit ''hi'']) (peer_world [packet (replicate 79 97)]) = Undef Unterminated"
proof -
  let ?w = "\<lambda>p. peer_world p" and ?l = "replicate 79 (97 :: byte)"
  have w: "socks (?w p) 3 = Some (Connected (peer_conn p [Eof]))" "sndq (peer_conn p [Eof]) = []" for p
    by (simp_all add: peer_world_def peer_conn_def)
  have q: "inq (peer_conn [packet l] [Eof]) = Data (packet l) # [Eof]" for l by (simp add: peer_conn_def)
  have "chat_client 3 (replicate 80 97 @ [10]) (?w []) = Undef Out_of_bounds"
    using chat_buffer_overruns [OF w(1) _ example_lines(1), of "replicate 80 97" "[10]" "[]"] by (simp add: chat_max_def)
  moreover have "chat_server 3 (lit ''hi'') (?w [packet (lit ''ho'')]) = Undef Out_of_bounds"
    using chat_buffer_overruns [OF w(1) [of "[packet (lit ''ho'')]"] _ example_lines(3), of "lit ''hi''" "[]" "[Eof]"] q by (simp add: lit_def)
  moreover have "chat_client 3 (typed [lit ''hi'']) (?w [packet ?l]) = Undef Unterminated"
    using chat_buffer_overruns [OF w(1) [of "[packet ?l]"] _ example_lines(1), of ?l "[]" "[Eof]" "[]"] w(2) q by (simp add: chat_max_def no_nul_def)
  ultimately show ?thesis by blast
qed

text \<open>C38. The whole programs: both return after the chat; the client closes its connection, the server closes the
  descriptor it listened on and leaves the connection open, with its lines sent.\<close>

theorem chat_mains_close:
  assumes "list_all text_line client_lines" and "list_all text_line (server_lines @ [bye])" and "length client_lines = Suc (length server_lines)"
    and "list_all (\<lambda>l. \<not> is_exit (packet l)) server_lines" and "is_exit (packet bye)"
    and client: "fds w = fd # r" "0 \<le> fd" "listeners w 0x7f000001 8080 = Some (peer_conn (map packet (server_lines @ [bye])) [Eof])"
    and server: "fds v = lfd # connfd # r'" "0 \<le> lfd" "0 \<le> connfd" "lfd \<noteq> connfd" "\<not> taken v 8080"
      "backlog v 8080 = peer_conn (map packet client_lines) [Eof] # cs"
  shows "\<exists>w' v'. chat_client_main (typed client_lines) w = Done (Some (map (\<lambda>l. l @ [10]) (server_lines @ [bye]))) w' \<and> socks w' fd = None \<and>
    chat_server_main (typed (server_lines @ [bye])) v = Done (Some (map (\<lambda>l. l @ [10]) client_lines)) v' \<and>
    socks v' lfd = None \<and> socks v' connfd \<noteq> None \<and> sent connfd v' = concat (map packet (server_lines @ [bye]))"
proof -
  let ?cc = "peer_conn (map packet (server_lines @ [bye])) [Eof]" and ?sc = "peer_conn (map packet client_lines) [Eof]"
  have c: "chat_client fd (typed client_lines) u = Done (map (\<lambda>l. l @ [10]) (server_lines @ [bye]))
     (put_conn fd (?cc\<lparr>inq := [Eof], outb := outb ?cc @ concat (map packet client_lines)\<rparr>) u)"
    if "socks u fd = Some (Connected ?cc)" for u
    by (rule chat_client_run [OF that]) (use assms(1-5) in \<open>simp_all add: peer_conn_def\<close>)
  have s: "chat_server connfd (typed (server_lines @ [bye])) u = Done (map (\<lambda>l. l @ [10]) client_lines)
     (put_conn connfd (?sc\<lparr>inq := [Eof], outb := outb ?sc @ concat (map packet (server_lines @ [bye]))\<rparr>) u)"
    if "socks u connfd = Some (Connected ?sc)" for u
    by (rule chat_server_run [OF that]) (use assms(1-5) in \<open>simp_all add: peer_conn_def\<close>)
  define cs' where "cs' = server_lines @ [bye]"
  have "\<exists>w'. chat_client_main (typed client_lines) w = Done (Some (map (\<lambda>l. l @ [10]) cs')) w' \<and> socks w' fd = None"
    using client c [folded cs'_def]
    by (simp add: chat_client_main_def proc_def exec_chain sys_socket_def sys_connect_def sys_close_def cs'_def [symmetric])
  moreover have "\<exists>v'. chat_server_main (typed cs') v = Done (Some (map (\<lambda>l. l @ [10]) client_lines)) v' \<and>
    socks v' lfd = None \<and> socks v' connfd \<noteq> None \<and> sent connfd v' = concat (map packet cs')"
    using server s [folded cs'_def]
    by (simp add: chat_server_main_def proc_def exec_chain sys_socket_def sys_bind_def sys_listen_def sys_accept_def sys_close_def
        sent_def put_conn_def peer_conn_def)
  ultimately show ?thesis unfolding cs'_def by blast
qed

theorem chat_mains_close_witness:
  "\<exists>w'. chat_client_main (typed [lit ''hi'']) ((peer_world [])\<lparr>listeners := (\<lambda>_ _. Some (peer_conn [packet (lit ''exit'')] [Eof]))\<rparr>) =
     Done (Some [lit ''exit'' @ [10]]) w' \<and> socks w' 3 = None"
  using chat_mains_close [of "[lit ''hi'']" "[]" "lit ''exit''" "(peer_world [])\<lparr>listeners := (\<lambda>_ _. Some (peer_conn [packet (lit ''exit'')] [Eof]))\<rparr>"
      3 "[]" "(peer_world [])\<lparr>fds := [4, 5], backlog := (\<lambda>_. [peer_conn [packet (lit ''hi'')] [Eof]])\<rparr>" 4 5 "[]" "[]"] example_lines
  by (simp add: peer_world_def) blast

end
