(* ===== verification/Session.thy ===== *)
theory Session
  imports Queries Scalars Get_Vec Assign
begin

text \<open>
  The client as a whole: sequences of calls on one connection. An abstract environment of R variables
  says what each call means; a client that performs the calls against a peer whose answers are those of
  the environment gets exactly the abstract results (refinement). In any other environment the calls of
  a session keep the client's memory and its other connections (\<open>session\<close>, a step relation).
\<close>

section \<open>Calls on an abstract environment\<close>

text \<open>The variables of R that the client sets and gets, and the calls. \<open>Assign\<close> and \<open>Fetch\<close> are \<open>set_vec\<close> and
  \<open>get_vec\<close> with type F8, \<open>Get_number\<close> is \<open>get_F8\<close>.\<close>

datatype rval = Lgl bool | Dbl "64 word list"

type_synonym renv = "cstr \<Rightarrow> rval option"

datatype api_call =
    Exists cstr
  | Set_bool cstr bool
  | Get_bool cstr
  | Vec_len cstr
  | Assign cstr "64 word list"
  | Fetch cstr
  | Get_number cstr

datatype api_result =
    Status int
  | Flag int "bool option"
  | Count int "int option"
  | Doubles int "64 word list"

text \<open>\<open>None\<close>: the environment has no value of the kind the call asks for.\<close>

fun env_step :: "api_call \<Rightarrow> renv \<Rightarrow> (api_result \<times> renv) option" where
  "env_step (Exists n) r = Some (Flag 0 (Some (r n \<noteq> None)), r)"
| "env_step (Set_bool n b) r = Some (Status 0, r(n \<mapsto> Lgl b))"
| "env_step (Get_bool n) r = (case r n of Some (Lgl b) \<Rightarrow> Some (Flag 0 (Some b), r) | _ \<Rightarrow> None)"
| "env_step (Vec_len n) r = (case r n of
       None \<Rightarrow> None
     | Some (Lgl b) \<Rightarrow> Some (Count 0 (Some 1), r)
     | Some (Dbl xs) \<Rightarrow> Some (Count 0 (Some (int (length xs))), r))"
| "env_step (Assign n xs) r = (if xs = [] then None else Some (Status 0, r(n \<mapsto> Dbl xs)))"
| "env_step (Fetch n) r = (case r n of Some (Dbl xs) \<Rightarrow> Some (Doubles 0 xs, r) | _ \<Rightarrow> None)"
| "env_step (Get_number n) r = (case r n of Some (Dbl [x]) \<Rightarrow> Some (Doubles 0 [x], r) | _ \<Rightarrow> None)"

fun env_run :: "api_call list \<Rightarrow> renv \<Rightarrow> (api_result list \<times> renv) option" where
  "env_run [] r = Some ([], r)"
| "env_run (c # cs) r = (case env_step c r of
       None \<Rightarrow> None
     | Some (x, r1) \<Rightarrow> (case env_run cs r1 of None \<Rightarrow> None | Some (xs, r2) \<Rightarrow> Some (x # xs, r2)))"

section \<open>Performing them\<close>

text \<open>The caller's part of a call: for \<open>Assign\<close> it puts the numbers into a block of its own, for \<open>Fetch\<close> it takes
  them from the block it is given and frees it.\<close>

fun perform :: "int \<Rightarrow> api_call \<Rightarrow> world \<Rightarrow> (api_result, world) outcome" where
  "perform sock (Exists n) w = obind (exists1 sock (Some n) w) (\<lambda>(st, x). Done (Flag st x))"
| "perform sock (Set_bool n b) w = obind (set_bool sock (Some n) b w) (\<lambda>st. Done (Status st))"
| "perform sock (Get_bool n) w = obind (get_bool sock (Some n) w) (\<lambda>(st, x). Done (Flag st x))"
| "perform sock (Vec_len n) w = obind (get_vec_len sock (Some n) w) (\<lambda>(st, x). Done (Count st x))"
| "perform sock (Assign n xs) w =
     obind (sys_malloc (of_nat (8 * length xs)) w) (\<lambda>p w.
     if p = Null then Done (Status (-1)) w
     else obind (store p 0 (array le64 xs) w) (\<lambda>_ w.
     obind (set_vec sock (Some n) (Some (lit ''F8'')) p (of_nat (length xs)) 0 w) (\<lambda>st w.
     obind (sys_free p w) (\<lambda>_. Done (Status st)))))"
| "perform sock (Fetch n) w =
     obind (get_vec sock (Some n) (Some (lit ''F8'')) w) (\<lambda>(st, out) w. case out of
       None \<Rightarrow> Done (Doubles st []) w
     | Some (p, k) \<Rightarrow>
         obind (load p 0 (8 * nat k) w) (\<lambda>bs w.
         obind (sys_free p w) (\<lambda>_. Done (Doubles st (elements 8 le_dec bs)))))"
| "perform sock (Get_number n) w =
     obind (get_F8 sock (Some n) w) (\<lambda>(st, x). Done (Doubles st (case x of None \<Rightarrow> [] | Some bs \<Rightarrow> [le_dec bs])))"

fun perform_all :: "int \<Rightarrow> api_call list \<Rightarrow> world \<Rightarrow> (api_result list, world) outcome" where
  "perform_all sock [] w = Done [] w"
| "perform_all sock (c # cs) w = obind (perform sock c w) (\<lambda>x w1. obind (perform_all sock cs w1) (\<lambda>xs. Done (x # xs)))"

text \<open>What a call sends, and the encoding of its result in the answer.\<close>

fun request_of :: "api_call \<Rightarrow> byte list" where
  "request_of (Exists n) = eval_request True (exists_text n)"
| "request_of (Set_bool n b) = eval_request True (set_bool_text n b)"
| "request_of (Get_bool n) = eval_request True n"
| "request_of (Vec_len n) = eval_request True (length_text n)"
| "request_of (Assign n xs) = request CMD_setSEXP (dt_string_param n @
     le32 (SET_PAR DT_SEXP (of_nat (8 * length xs + 8))) @ sexp XT_ARRAY_DOUBLE (array le64 xs))"
| "request_of (Fetch n) = eval_request True n"
| "request_of (Get_number n) = eval_request True n"

definition lgl_reply :: "bool \<Rightarrow> byte list" where
  "lgl_reply b = sexp_reply XT_ARRAY_BOOL (bool_array [if b then 1 else 0])"

fun reply_of :: "api_call \<Rightarrow> api_result \<Rightarrow> byte list" where
  "reply_of (Set_bool n b) x = lgl_reply b"
| "reply_of c (Status st) = enc_phdr \<lparr>cmd = RESP_OK, len = 0, msg_id = 0, res = 0\<rparr>"
| "reply_of c (Flag st x) = lgl_reply (x = Some True)"
| "reply_of c (Count st x) = sexp_reply XT_ARRAY_INT (int_array [word_of_int (case x of None \<Rightarrow> 0 | Some k \<Rightarrow> k)])"
| "reply_of c (Doubles st xs) = sexp_reply XT_ARRAY_DOUBLE (array le64 xs)"

text \<open>The bounds of the packet format: names of less than 2 GB, fewer than \<open>2^24\<close> bytes in a vector.\<close>

fun call_fits :: "api_call \<Rightarrow> bool" where
  "call_fits (Exists n) \<longleftrightarrow> short_name n"
| "call_fits (Set_bool n b) \<longleftrightarrow> short_name n"
| "call_fits (Get_bool n) \<longleftrightarrow> short_name n"
| "call_fits (Vec_len n) \<longleftrightarrow> short_name n"
| "call_fits (Assign n xs) \<longleftrightarrow> n \<noteq> [] \<and> length n + 8 * length xs + 24 < 2 ^ 31"
| "call_fits (Fetch n) \<longleftrightarrow> short_name n"
| "call_fits (Get_number n) \<longleftrightarrow> short_name n"

fun result_fits :: "api_result \<Rightarrow> bool" where
  "result_fits (Count st (Some k)) \<longleftrightarrow> 0 \<le> k \<and> k < 2 ^ 31"
| "result_fits (Doubles st xs) \<longleftrightarrow> 8 * length xs < 2 ^ 24"
| "result_fits x \<longleftrightarrow> True"

section \<open>One call in a healthy environment\<close>

text \<open>A call within a call sees a later starting point.\<close>

lemma since_trans:
  assumes "since sock w0 m w1" "since sock w1 Map.empty w2"
  shows "since sock w0 m w2"
proof -
  have late: "heap w2 i = m i" if "next_id w0 \<le> i" for i
  proof (cases "i < next_id w1")
    case True
    then show ?thesis using assms that by (simp add: since_def)
  next
    case False
    moreover from this have "m i = None" using assms that by (metis since_def wf_heap_def not_less)
    ultimately show ?thesis using assms by (simp add: since_def)
  qed
  have early: "heap w2 i = heap w0 i \<and> m i = None" if "i < next_id w0" for i
  proof -
    have "i < next_id w1" using assms that by (simp add: since_def)
    then show ?thesis using assms that by (simp add: since_def)
  qed
  show ?thesis
    using assms late early by (simp add: since_def [of sock w0 m w2]) (simp add: since_def)
qed

lemma whole_restart: "whole sock w0 m bs q out w \<Longrightarrow> whole sock w Map.empty bs q out w"
  by (auto simp: whole_def intro: since_start since_wf)

lemma whole_trans: "whole sock w0 m bs1 q1 out1 w1 \<Longrightarrow> whole sock w1 Map.empty bs q out w2 \<Longrightarrow> whole sock w0 m bs q out w2"
  by (auto simp: whole_def intro: since_trans)

lemma whole_next: "whole sock w0 m [] (Data bs # q) out w \<Longrightarrow> bs \<noteq> [] \<Longrightarrow> whole sock w0 m bs q out w"
  by (auto simp: whole_def)

lemma short_name_packet: "short_name n \<Longrightarrow> fits_packet (length n)"
  by (simp add: short_name_def fits_packet_def)

text \<open>The rules of the functions as they are used here: a reply in one segment.\<close>

lemma exists1_whole:
  assumes "whole sock w0 m (lgl_reply b @ bs) q out w" "0 \<le> sock" "short_name n"
    and "\<And>w'. whole sock w0 m bs q (out @ eval_request True (exists_text n)) w' \<Longrightarrow> Q (0, Some b) w'"
  shows "runs False (exists1 sock (Some n) w) Q"
  unfolding exists1_def
  by (rule segment_reader.ans.exists1_rule [OF assms(1) [unfolded lgl_reply_def]])
    (use assms in \<open>auto simp: answerable_def fits_packet_def short_name_def XT_ARRAY_BOOL_def\<close>)

lemma get_bool_whole:
  assumes "whole sock w0 m (lgl_reply b @ bs) q out w" "0 < sock" "short_name n"
    and "\<And>w'. whole sock w0 m bs q (out @ eval_request True n) w' \<Longrightarrow> Q (0, Some b) w'"
  shows "runs False (get_bool sock (Some n) w) Q"
  unfolding get_bool_def
  by (rule segment_reader.ans.get_bool_rule [OF assms(1) [unfolded lgl_reply_def]])
    (use assms in \<open>auto simp: answerable_def fits_packet_def short_name_def XT_ARRAY_BOOL_def\<close>)

lemma set_bool_whole:
  assumes "whole sock w0 m (lgl_reply b @ bs) q out w" "0 \<le> sock" "short_name n"
    and "\<And>w'. whole sock w0 m bs q (out @ eval_request True (set_bool_text n x)) w' \<Longrightarrow> Q 0 w'"
  shows "runs False (set_bool sock (Some n) x w) Q"
  unfolding set_bool_def
  by (rule segment_reader.ans.set_bool_rule [OF assms(1) [unfolded lgl_reply_def]])
    (use assms in \<open>auto simp: answerable_def fits_packet_def short_name_def XT_ARRAY_BOOL_def\<close>)

lemma get_vec_len_whole:
  assumes "whole sock w0 m (sexp_reply XT_ARRAY_INT (int_array [v]) @ bs) q out w" "0 \<le> sock" "short_name n"
    and "\<And>w'. whole sock w0 m bs q (out @ eval_request True (length_text n)) w' \<Longrightarrow> Q (0, Some (sint v)) w'"
  shows "runs False (get_vec_len sock (Some n) w) Q"
  unfolding get_vec_len_def
  by (rule segment_reader.ans.get_vec_len_rule [OF assms(1)])
    (use assms in \<open>auto simp: answerable_def fits_packet_def short_name_def XT_ARRAY_INT_def\<close>)

lemma get_F8_whole:
  assumes "whole sock w0 m (sexp_reply XT_ARRAY_DOUBLE (le64 v) @ bs) q out w" "0 \<le> sock" "fits_packet (length n)"
    and "\<And>w'. whole sock w0 m bs q (out @ eval_request True n) w' \<Longrightarrow> Q (0, Some (le64 v)) w'"
  shows "runs False (get_F8 sock (Some n) w) Q"
  unfolding get_F8_def
  by (rule runs_get_scalar [where bs = "sexp_words XT_ARRAY_DOUBLE 8 @ le64 v @ bs"
        and ph = "\<lparr>cmd = RESP_OK, len = of_nat (8 + 8), msg_id = 0, res = 0\<rparr>"])
    (use assms in \<open>auto simp: sexp_reply_words XT_ARRAY_DOUBLE_def\<close>)

lemma get_vec_whole:
  assumes "whole sock w0 m (sexp_reply XT_ARRAY_DOUBLE (array le64 xs) @ bs) q out w" "0 \<le> sock" "fits_packet (length n)"
    and "8 * length xs < 2 ^ 24"
    and "\<And>i w'. whole sock w0 (m(i \<mapsto> array le64 xs)) bs q (out @ eval_request True n) w' \<Longrightarrow> m i = None \<Longrightarrow>
      Q (0, Some (Ptr i, int (length xs))) w'"
  shows "runs False (get_vec sock (Some n) (Some (lit ''F8'')) w) Q"
  by (rule runs_get_vec [where d = "array le64 xs" and k = "length xs" and xt = XT_ARRAY_DOUBLE and width = 8])
    (use assms in \<open>auto simp: sexp_reply_words elem_width_def elem_xt_def double_elt.length_array\<close>)

lemma set_vec_whole:
  assumes "whole sock w0 m (enc_phdr ph @ bs) q out w" "len ph = 0" "0 \<le> sock" "n \<noteq> []" "xs \<noteq> []"
    and "length n + 8 * length xs + 24 < 2 ^ 31" and "m i = Some (array le64 xs)"
    and Q: "\<And>w'. whole sock w0 m bs q (out @ request_of (Assign n xs)) w' \<Longrightarrow> Q 0 w'"
  shows "runs False (set_vec sock (Some n) (Some (lit ''F8'')) (Ptr i) (of_nat (length xs)) k w) Q"
proof -
  let ?d = "array le64 xs"
  have wf: "wf_heap w" and i: "heap w i = Some ?d"
    using whole_since [OF assms(1)] assms(7) since_wf since_block by blast+
  have ld: "length ?d = 8 * length xs" by (rule double_elt.length_array)
  have u: "unat (of_nat (length xs) * 8 :: u32) = length ?d"
    using assms(6) unat_of_nat_u32 [of "length xs * 8"] by (simp add: ld mult.commute)
  have c: "of_nat (length xs) \<noteq> (0 :: u32)"
    using assms(5,6) unat_of_nat_u32 [of "length xs"] by auto
  have xt: "XT_ARRAY_DOUBLE \<noteq> XT_ARRAY_BOOL" by (simp add: XT_ARRAY_DOUBLE_def XT_ARRAY_BOOL_def)
  have req: "request_of (Assign n xs) = request CMD_setSEXP (dt_string_param n @ param2_words XT_ARRAY_DOUBLE (of_nat (length xs)) (length ?d) @ take (length ?d) ?d)"
    using xt by (simp add: param2_words_def sexp_def ld add.commute)
  show ?thesis
    by (rule segment_reader.set_vec_plain_rule [OF whole_restart [OF assms(1)] assms(3), where width = 8 and xt = XT_ARRAY_DOUBLE and c = "length ?d" and d = ?d])
      (use assms(2,4,6) u ld i c in \<open>auto simp: name_fits_def set_type_def older_wf [OF wf] req simp del: request_of.simps intro!: Q whole_trans [OF assms(1)]\<close>)
qed

text \<open>Any call: the result of the environment, and the rest of the stream untouched.\<close>

lemma reply_not_Nil [simp]: "reply_of c x \<noteq> []"
  by (cases "(c, x)" rule: reply_of.cases) (simp_all add: lgl_reply_def)

lemma perform_rule:
  assumes h: "whole sock w0 m (reply_of c x @ bs) q out w" and sock: "0 < sock" and fits: "call_fits c" "result_fits x"
    and x: "env_step c r = Some (x, r')"
    and Q: "\<And>w'. whole sock w0 m bs q (out @ request_of c) w' \<Longrightarrow> Q x w'"
  shows "runs False (perform sock c w) Q"
proof (cases c)
  case (Exists n)
  then show ?thesis using h fits sock x Q by (auto simp: wp_simps intro!: exists1_whole)
next
  case (Set_bool n b)
  then show ?thesis using h fits sock x Q by (auto simp: wp_simps intro!: set_bool_whole)
next
  case (Get_bool n)
  then show ?thesis using h fits sock x Q
    by (auto simp: wp_simps intro!: get_bool_whole split: option.splits rval.splits)
next
  case (Vec_len n)
  then obtain k where k: "x = Count 0 (Some k)" "0 \<le> k" "k < 2 ^ 31"
    using x fits by (auto split: option.splits rval.splits)
  then have "sint (word_of_int k :: u32) = k" using sint_of_nat_u32 [of "nat k"] by simp
  then show ?thesis using h fits sock x Q k
    by (auto simp: wp_simps Vec_len intro!: get_vec_len_whole)
next
  case (Assign n xs)
  note c = this
  have xs: "xs \<noteq> []" "x = Status 0" using x c by (auto split: if_splits)
  have n: "n \<noteq> []" "length n + 8 * length xs + 24 < 2 ^ 31" using fits c by simp_all
  have u: "unat (of_nat (8 * length xs) :: size_t) = 8 * length xs" using n(2) by (intro unat_of_nat_size) simp
  note u' = u [simplified]
  have h': "whole sock w0 m (enc_phdr \<lparr>cmd = RESP_OK, len = 0, msg_id = 0, res = 0\<rparr> @ bs) q out w" using h c xs by simp
  show ?thesis
    unfolding c perform.simps wp_simps
    apply (rule runs_sys_malloc_whole [OF h'])
     apply (use u n(2) in \<open>simp add: ptrdiff_max_def\<close>)
    apply (simp add: wp_simps u)
    apply (rule whole_channel.mem.store, assumption, simp, simp add: double_elt.length_array u')
    apply (simp add: wp_simps double_elt.length_array u')
    apply (rule set_vec_whole, assumption, simp)
         apply (use sock xs n in simp_all)[5]
    apply (rule whole_channel.mem.free, assumption, simp)
    apply (use Q c xs in simp)
    done
next
  case (Fetch n)
  then obtain xs where xs: "x = Doubles 0 xs" "8 * length xs < 2 ^ 24"
    using x fits by (auto split: option.splits rval.splits)
  show ?thesis
    unfolding Fetch perform.simps wp_simps
    apply (rule get_vec_whole [where xs = xs])
        apply (use h sock fits xs Fetch in \<open>simp_all add: wp_simps short_name_packet\<close>)
    apply (rule whole_channel.mem.load, assumption, simp, simp add: double_elt.length_array)
    apply (simp add: wp_simps)
    apply (rule whole_channel.mem.free, assumption, simp)
    apply (use Q Fetch xs in \<open>simp add: double_elt.length_array double_elt.elements_array\<close>)
    done
next
  case (Get_number n)
  then obtain v where v: "x = Doubles 0 [v]"
    using x fits by (auto split: option.splits rval.splits list.splits)
  then show ?thesis using h fits sock Q Get_number double_elt.dec_enc [of v]
    by (auto simp: wp_simps short_name_packet intro!: get_F8_whole)
qed

text \<open>A sequence of calls, each answered in a segment of its own.\<close>

lemma perform_all_rule:
  "whole sock w0 m [] (map Data (map2 reply_of cs xs) @ q) out w \<Longrightarrow> 0 < sock \<Longrightarrow> env_run cs r = Some (xs, r') \<Longrightarrow>
   list_all call_fits cs \<Longrightarrow> list_all result_fits xs \<Longrightarrow>
   runs False (perform_all sock cs w) (\<lambda>ys w'. ys = xs \<and> whole sock w0 m [] q (out @ concat (map request_of cs)) w')"
proof (induction cs arbitrary: xs r w out)
  case Nil
  then show ?case by simp
next
  case (Cons c cs)
  then obtain x r1 ys where s: "env_step c r = Some (x, r1)" "env_run cs r1 = Some (ys, r')" "xs = x # ys"
    by (auto split: option.splits prod.splits)
  have h: "whole sock w0 m (reply_of c x @ []) (map Data (map2 reply_of cs ys) @ q) out w"
    using Cons.prems(1) s(3) by (auto intro: whole_next)
  show ?case
    unfolding perform_all.simps runs_obind runs_Done
  proof (rule perform_rule [OF h Cons.prems(2) _ _ s(1)])
    fix w' assume "whole sock w0 m [] (map Data (map2 reply_of cs ys) @ q) (out @ request_of c) w'"
    from Cons.IH [OF this Cons.prems(2) s(2)] Cons.prems(4,5) s(3)
    show "runs False (perform_all sock cs w') (\<lambda>a s. x # a = xs \<and>
        whole sock w0 m [] q (out @ concat (map request_of (c # cs))) s)"
      by simp
  qed (use Cons.prems s in simp_all)
qed

section \<open>Sessions in any environment\<close>

text \<open>The calls that are safe against any peer, with the bounds they need.\<close>

fun safe_call :: "api_call \<Rightarrow> bool" where
  "safe_call (Fetch n) \<longleftrightarrow> False"
| "safe_call (Vec_len n) \<longleftrightarrow> False"
| "safe_call (Get_number n) \<longleftrightarrow> False"
| "safe_call (Assign n xs) \<longleftrightarrow> name_fits n \<and> 8 * length xs + 12 < 2 ^ 32"
| "safe_call (Exists n) \<longleftrightarrow> short_name n"
| "safe_call (Set_bool n b) \<longleftrightarrow> short_name n"
| "safe_call (Get_bool n) \<longleftrightarrow> short_name n"

text \<open>The type of a call's result: the outputs are there exactly if the status says so.\<close>

definition out_typed :: "int \<Rightarrow> 'a option \<Rightarrow> bool" where
  "out_typed st x \<longleftrightarrow> st = 0 \<and> x \<noteq> None \<or> st = -1 \<and> x = None"

fun typed_result :: "api_call \<Rightarrow> api_result \<Rightarrow> bool" where
  "typed_result (Exists n) (Flag st x) \<longleftrightarrow> out_typed st x"
| "typed_result (Get_bool n) (Flag st x) \<longleftrightarrow> out_typed st x"
| "typed_result (Set_bool n b) (Status st) \<longleftrightarrow> st \<le> 0"
| "typed_result (Assign n xs) (Status st) \<longleftrightarrow> st \<le> 0"
| "typed_result (Vec_len n) (Count st x) \<longleftrightarrow> out_typed st x"
| "typed_result (Fetch n) (Doubles st xs) \<longleftrightarrow> st \<le> 0"
| "typed_result (Get_number n) (Doubles st xs) \<longleftrightarrow> st \<le> 0"
| "typed_result c x \<longleftrightarrow> False"

inductive session :: "int \<Rightarrow> world \<Rightarrow> world \<Rightarrow> bool" for sock w0 where
  start: "wf_heap w0 \<Longrightarrow> session sock w0 w0"
| call: "session sock w0 w \<Longrightarrow> safe_call c \<Longrightarrow> perform sock c w = Done x w' \<Longrightarrow> session sock w0 w'"

inductive_cases sessionE: "session sock w0 w"

lemma exists1_any:
  assumes "since sock w0 m w" "short_name n" and Q: "\<And>st x w'. since sock w0 m w' \<Longrightarrow> out_typed st x \<Longrightarrow> Q (st, x) w'"
  shows "runs (\<not> closes sock w0) (exists1 sock (Some n) w) Q"
proof (cases "sock < 0")
  case True
  then show ?thesis using Q [OF assms(1)] by (simp add: out_typed_def exists1_def exists1_via_def wp_simps query_end_def)
next
  case False
  show ?thesis
    unfolding exists1_def by (rule any_eval.exists1_rule [OF assms(1)]) (use False assms(2) Q in \<open>auto simp: out_typed_def split: option.split\<close>)
qed

lemma get_bool_any:
  assumes "since sock w0 m w" "short_name n" and Q: "\<And>st x w'. since sock w0 m w' \<Longrightarrow> out_typed st x \<Longrightarrow> Q (st, x) w'"
  shows "runs (\<not> closes sock w0) (get_bool sock (Some n) w) Q"
proof (cases "sock \<le> 0")
  case True
  then show ?thesis using Q [OF assms(1)] by (simp add: out_typed_def get_bool_def get_bool_via_def wp_simps query_end_def)
next
  case False
  show ?thesis
    unfolding get_bool_def by (rule any_eval.get_bool_rule [OF assms(1)]) (use False assms(2) Q in \<open>auto simp: out_typed_def split: option.split\<close>)
qed

lemma set_bool_any:
  assumes "since sock w0 m w" "short_name n" and Q: "\<And>st w'. since sock w0 m w' \<Longrightarrow> st \<le> 0 \<Longrightarrow> Q st w'"
  shows "runs (\<not> closes sock w0) (set_bool sock (Some n) b w) Q"
  unfolding set_bool_def by (rule any_eval.set_bool_rule [OF assms(1)]) (use assms(2) Q in auto)

lemma set_vec_any:
  assumes "since sock w0 m w" "name_fits n" "8 * length xs + 12 < 2 ^ 32" "m i = Some (array le64 xs)"
    and Q: "\<And>st w'. since sock w0 m w' \<Longrightarrow> st \<le> 0 \<Longrightarrow> Q st w'"
  shows "runs (\<not> closes sock w0) (set_vec sock (Some n) (Some (lit ''F8'')) (Ptr i) (of_nat (length xs)) k w) Q"
proof -
  have wf: "wf_heap w" and i: "heap w i = Some (array le64 xs)"
    using assms(1,4) since_wf since_block by blast+
  have u: "unat (of_nat (length xs) * 8 :: u32) = 8 * length xs"
    using assms(3) unat_of_nat_u32 [of "length xs * 8"] by (simp add: mult.commute)
  show ?thesis
    by (rule runs_set_vec_any [OF since_start [OF wf]])
      (use assms i u in \<open>auto simp: older_wf [OF wf] set_type_def double_elt.length_array
        intro: since_closes since_trans split: if_splits\<close>)
qed

lemma perform_any:
  assumes s: "since sock w0 Map.empty w" and c: "safe_call c" and Q: "\<And>x w'. since sock w0 Map.empty w' \<Longrightarrow> typed_result c x \<Longrightarrow> Q x w'"
  shows "runs (\<not> closes sock w0) (perform sock c w) Q"
proof (cases c)
  case (Assign n xs)
  then have n: "name_fits n" "8 * length xs + 12 < 2 ^ 32" using c by simp_all
  have u: "unat (of_nat (8 * length xs) :: size_t) = 8 * length xs" using n(2) by (intro unat_of_nat_size) simp
  note u' = u [simplified]
  show ?thesis
    unfolding Assign perform.simps wp_simps
    apply (rule runs_sys_malloc [OF s])
     apply (use Q Assign in simp)
    apply (simp add: wp_simps u')
    apply (rule any_env.store, assumption, simp, simp add: double_elt.length_array)
    apply (simp add: wp_simps double_elt.length_array)
    apply (rule set_vec_any, assumption, rule n, rule n, simp)
    apply (rule any_env.free, assumption, simp)
    apply (use Q Assign in simp)
    done
qed (use assms in \<open>auto simp: wp_simps intro!: exists1_any get_bool_any set_bool_any\<close>)

text \<open>A peer that sends the replies \<open>rs\<close>, each in a segment of its own, in an environment at its best; and one that
  answers the calls \<open>cs\<close> with the results \<open>xs\<close>.\<close>

definition faces :: "int \<Rightarrow> byte list list \<Rightarrow> rcv_event list \<Rightarrow> world \<Rightarrow> bool" where
  "faces sock rs q w \<longleftrightarrow> 0 < sock \<and> wf_heap w \<and> whole sock w Map.empty [] (map Data rs @ q) (sent sock w) w"

lemma faces_peer: "faces 3 rs [Eof] ((peer_world rs)\<lparr>junk := j\<rparr>)"
  by (auto simp: faces_def since_start peer_world_def peer_conn_def sent_def wf_heap_def intro!: wholeI)

abbreviation answers_calls :: "int \<Rightarrow> api_call list \<Rightarrow> api_result list \<Rightarrow> rcv_event list \<Rightarrow> world \<Rightarrow> bool" where
  "answers_calls sock cs xs \<equiv> faces sock (map2 reply_of cs xs)"

lemma answers_peer:
  "answers_calls 3 cs xs [Eof] (peer_world (map2 reply_of cs xs))"
  using faces_peer [of _ "\<lambda>_ _. 0xA5"] by (simp add: peer_world_def)

lemma session_since:
  assumes "session sock w0 w"
  shows "wf_heap w0 \<and> since sock w0 Map.empty w"
  using assms
proof induction
  case start
  then show ?case by (simp add: since_start)
next
  case (call w c x w')
  then show ?case
    using runs_DoneD [OF perform_any [where Q = "\<lambda>_. since sock w0 Map.empty"], of sock w0 w c x w'] by blast
qed

lemma perform_all_session:
  "session sock w0 w \<Longrightarrow> list_all safe_call cs \<Longrightarrow>
   runs (\<not> closes sock w0) (perform_all sock cs w) (\<lambda>_. session sock w0)"
proof (induction cs arbitrary: w)
  case Nil
  then show ?case by simp
next
  case (Cons c cs)
  have s: "since sock w0 Map.empty w" using session_since [OF Cons.prems(1)] by blast
  have "runs (\<not> closes sock w0) (perform sock c w) (\<lambda>x w'. perform sock c w = Done x w')"
    using perform_any [OF s, of c "\<lambda>_ _. True"] Cons.prems(2) by (auto simp: runs_def split: outcome.splits)
  then have "runs (\<not> closes sock w0) (perform sock c w) (\<lambda>_. session sock w0)"
    by (rule runs_mono) (use Cons.prems in \<open>auto intro: session.call\<close>)
  then show ?case
    unfolding perform_all.simps runs_obind runs_Done
    by (rule runs_mono) (use Cons in simp)
qed

section \<open>Properties\<close>

text \<open>C3. The client refines the environment of R variables: a sequence of calls that the environment answers with
  \<open>xs\<close> gives exactly \<open>xs\<close> to a client whose peer sends these results, sends the requests of the calls in order, and
  leaves the heap as it was and the rest of the stream unread.\<close>

theorem session_refines_env:
  assumes "env_run cs r = Some (xs, r')" and "answers_calls sock cs xs q w"
    and "list_all call_fits cs" and "list_all result_fits xs"
  shows "\<exists>w'. perform_all sock cs w = Done xs w' \<and> served sock (concat (map request_of cs)) (avail q) w w'"
proof -
  have wf: "wf_heap w" and sock: "0 < sock"
    and h: "whole sock w Map.empty [] (map Data (map2 reply_of cs xs) @ q) (sent sock w) w"
    using assms(2) by (simp_all add: faces_def)
  show ?thesis
    using perform_all_rule [OF h sock assms(1,3,4)] served_whole [OF wf, of sock "[]" q]
    by (auto dest!: runs_total)
qed

theorem session_refines_env_witness:
  "\<exists>w'. perform_all 3 [Set_bool (lit ''x'') True, Assign (lit ''v'') [7], Get_bool (lit ''x''), Vec_len (lit ''v'')]
     (peer_world (map2 reply_of [Set_bool (lit ''x'') True, Assign (lit ''v'') [7], Get_bool (lit ''x''), Vec_len (lit ''v'')]
        [Status 0, Status 0, Flag 0 (Some True), Count 0 (Some 1)])) =
     Done [Status 0, Status 0, Flag 0 (Some True), Count 0 (Some 1)] w'"
proof -
  let ?cs = "[Set_bool (lit ''x'') True, Assign (lit ''v'') [7], Get_bool (lit ''x''), Vec_len (lit ''v'')]"
  let ?xs = "[Status 0, Status 0, Flag 0 (Some True), Count 0 (Some 1)]"
  have "env_run ?cs Map.empty = Some (?xs, [lit ''x'' \<mapsto> Lgl True, lit ''v'' \<mapsto> Dbl [7]])"
    by (simp add: lit_def)
  moreover have "list_all call_fits ?cs" "list_all result_fits ?xs" by (simp_all add: short_name_def lit_def)
  ultimately show ?thesis
    using session_refines_env [of ?cs Map.empty ?xs _ 3 "[Eof]"] answers_peer [of ?cs ?xs] by blast
qed

text \<open>C9. Whatever the peer does, no state that a session reaches has lost or gained a block of the client's memory,
  changed another descriptor, or turned a peer that closes into one that does not.\<close>

theorem session_invariant:
  assumes "session sock w0 w"
  shows "wf_heap w \<and> heap w = heap w0 \<and> (\<forall>s. s \<noteq> sock \<longrightarrow> socks w s = socks w0 s) \<and> (closes sock w0 \<longrightarrow> closes sock w)"
  using session_since [OF assms] by (auto intro: since_wf since_heap since_socks since_closes)

theorem session_invariant_witness:
  "\<exists>x w. perform 3 (Get_bool (lit ''x'')) (peer_world [[1, 2, 3]]) = Done x w \<and> heap w = Map.empty"
proof -
  let ?w = "peer_world [[1, 2, 3]]"
  have c: "safe_call (Get_bool (lit ''x''))" by (simp add: short_name_def lit_def)
  have "runs False (perform 3 (Get_bool (lit ''x'')) ?w) (\<lambda>_ _. True)"
    using perform_any [OF since_start c, of ?w 3 "\<lambda>_ _. True"] by simp
  then obtain x w where "perform 3 (Get_bool (lit ''x'')) ?w = Done x w" by (auto dest!: runs_total)
  moreover from this have "session 3 ?w w" by (intro session.call [OF session.start c]) simp_all
  ultimately show ?thesis using session_invariant [of 3 ?w w] by auto
qed

text \<open>C8. In every state that a session reaches, no safe call has undefined behaviour; if the peer closes, every further
  sequence of safe calls returns and continues the session.\<close>

theorem session_progress:
  assumes "session sock w0 w" and "list_all safe_call cs"
  shows "perform_all sock cs w \<noteq> Undef u \<and>
    (closes sock w0 \<longrightarrow> (\<exists>xs w'. perform_all sock cs w = Done xs w' \<and> session sock w0 w'))"
proof -
  have "runs (\<not> closes sock w0) (perform_all sock cs w) (\<lambda>_. session sock w0)" by (rule perform_all_session [OF assms])
  then show ?thesis by (auto dest: runs_no_ub runs_total)
qed

theorem session_progress_witness:
  "\<exists>xs w'. perform_all 3 [Set_bool (lit ''x'') True, Get_bool (lit ''x'')] (peer_world [[1, 2, 3]]) = Done xs w'"
  using session_progress [of 3 "peer_world [[1, 2, 3]]" "peer_world [[1, 2, 3]]" "[Set_bool (lit ''x'') True, Get_bool (lit ''x'')]"]
  by (simp add: session.start short_name_def lit_def) blast

end
