(* ===== verification/Unit_Test.thy ===== *)
theory Unit_Test
  imports Session
begin

text \<open>
  Four scenarios of test/unit_test_1.c, clients of the library: \<open>test1\<close> (a vector of doubles out and back),
  \<open>test4\<close> (a boolean out and back), \<open>test5\<close> (does a variable exist) and \<open>test9\<close> (the length of a vector).
  The other scenarios and \<open>main\<close> combine the same calls with expressions that only a live R can answer. The
  messages on stdout are left out.

  Each \<open>for\<close> over the rounds is a recursion over the rounds left; its value is the status the loop ends with. The
  verdicts say what a scenario returns to its caller when the peer answers as the scenario expects.
\<close>

section \<open>Locals and data\<close>

text \<open>The locals of the scenarios: the data sent, the data received and the length received (indeterminate at first).\<close>

record test_vars =
  tv_x :: ptr
  tv_chk :: ptr
  tv_chk_n :: "int option"

abbreviation test_start :: test_vars where
  "test_start \<equiv> \<lparr>tv_x = Null, tv_chk = Null, tv_chk_n = None\<rparr>"

definition test_end :: "int \<Rightarrow> test_vars \<Rightarrow> world \<Rightarrow> (int, world) outcome" where
  "test_end status l w = obind (free_all [tv_x l, tv_chk l] w) (\<lambda>_ w'. Done status w')"

text \<open>\<open>malloc(n * sizeof(double))\<close>, unchecked, and the loop that writes the bytes \<open>bs\<close> from the front.\<close>

definition make_data :: "int \<Rightarrow> byte list \<Rightarrow> (ptr, 'r, test_vars, world) cmd" where
  "make_data n bs =
     chain (call (sys_malloc (size_of_int n * 8))) (\<lambda>p.
     chain (upd_loc (\<lambda>l. l\<lparr>tv_x := p\<rparr>)) (\<lambda>_.
     chain (if bs = [] then done_with () else call (store p 0 bs)) (\<lambda>_.
     done_with p)))"

text \<open>The use of \<open>chk_n\<close>.\<close>

definition the_chk_n :: "(int, 'r, test_vars, world) cmd" where
  "the_chk_n = chain (get_loc tv_chk_n) (\<lambda>v. case v of None \<Rightarrow> fault Uninit_use | Some n \<Rightarrow> done_with n)"

text \<open>The comparison of two doubles: a NaN differs from everything, the two zeros are equal.\<close>

definition is_nan :: "64 word \<Rightarrow> bool" where
  "is_nan d \<longleftrightarrow> drop_bit 52 d AND 0x7FF = 0x7FF \<and> d AND 0xFFFFFFFFFFFFF \<noteq> 0"

definition double_eq :: "64 word \<Rightarrow> 64 word \<Rightarrow> bool" where
  "double_eq a b \<longleftrightarrow> \<not> is_nan a \<and> \<not> is_nan b \<and> (a = b \<or> push_bit 1 a = 0 \<and> push_bit 1 b = 0)"

definition read_doubles :: "ptr \<Rightarrow> nat \<Rightarrow> (64 word list, 'r, test_vars, world) cmd" where
  "read_doubles p n = (if n = 0 then done_with []
     else chain (call (load p 0 (8 * n))) (\<lambda>bs. done_with (elements 8 le_dec bs)))"

section \<open>test1\<close>

fun test1_rounds :: "int \<Rightarrow> int \<Rightarrow> ptr \<Rightarrow> nat \<Rightarrow> int \<Rightarrow> (int, 'r, test_vars, world) cmd" where
  "test1_rounds sock n x 0 status = done_with status"
| "test1_rounds sock n x (Suc k) status =
     chain (call (set_vec sock (Some (lit ''vecF8'')) (Some (lit ''F8'')) x (word_of_int n) 0)) (\<lambda>status.
     chain (cBYE status) (\<lambda>_.
     chain (get_loc tv_chk) (\<lambda>chk.
     chain (call (sys_free chk)) (\<lambda>_.
     chain (upd_loc (\<lambda>l. l\<lparr>tv_chk := Null\<rparr>)) (\<lambda>_.
     chain (call (get_vec sock (Some (lit ''vecF8'')) (Some (lit ''F8'')))) (\<lambda>(status, out).
     chain (upd_loc (\<lambda>l. case out of None \<Rightarrow> l | Some (p, v) \<Rightarrow> l\<lparr>tv_chk := p, tv_chk_n := Some v\<rparr>)) (\<lambda>_.
     chain (cBYE status) (\<lambda>_.
     chain the_chk_n (\<lambda>chk_n.
     chain (bye_when (n \<noteq> chk_n) (-1)) (\<lambda>_.
     chain (get_loc tv_chk) (\<lambda>chk.
     chain (bye_when (chk = Null) (-1)) (\<lambda>_.
     chain (read_doubles x (nat n)) (\<lambda>ds.
     chain (read_doubles chk (nat n)) (\<lambda>es.
     chain (bye_when (\<not> list_all2 double_eq ds es) (-1)) (\<lambda>_.
     test1_rounds sock n x k status)))))))))))))))"

text \<open>\<open>xF8\<close> is a \<open>char *\<close> here: of the \<open>8*n\<close> bytes of the doubles, only the first \<open>n\<close> get a value, and
  \<open>10*(i+1)\<close> is an \<open>int\<close>.\<close>

definition test1 :: "int \<Rightarrow> int \<Rightarrow> int \<Rightarrow> world \<Rightarrow> (int, world) outcome" where
  "test1 sock n niters = proc test_start
     (chain (make_data n (map (\<lambda>i. word_of_int (10 * (int i + 1))) [0..<nat n])) (\<lambda>x.
      chain (if int_max < 10 * n then fault Signed_overflow else done_with ()) (\<lambda>_.
      test1_rounds sock n x (nat niters) 0)))
     test_end"

section \<open>test4\<close>

fun test4_rounds :: "int \<Rightarrow> nat \<Rightarrow> int \<Rightarrow> int \<Rightarrow> (int, 'r, 'l, world) cmd" where
  "test4_rounds sock 0 i status = done_with status"
| "test4_rounds sock (Suc k) i status =
     (let x = (i mod 2 = 0) in
      chain (call (set_bool sock (Some (lit ''x'')) x)) (\<lambda>status.
      chain (cBYE status) (\<lambda>_.
      chain (call (get_bool sock (Some (lit ''x'')))) (\<lambda>(status, y).
      chain (cBYE status) (\<lambda>_.
      case y of None \<Rightarrow> fault Uninit_use
      | Some y \<Rightarrow>
          chain (bye_when (x \<noteq> y) (-1)) (\<lambda>_.
          test4_rounds sock k (i + 1) status))))))"

definition test4 :: "int \<Rightarrow> int \<Rightarrow> world \<Rightarrow> (int, world) outcome" where
  "test4 sock niters = proc () (test4_rounds sock (nat niters) 0 0) (\<lambda>status _ w. Done status w)"

section \<open>test5\<close>

text \<open>The double of a positive \<open>int\<close>: the exponent is the number of the highest bit, the rest is the fraction.\<close>

fun high_bit :: "nat \<Rightarrow> nat" where
  "high_bit v = (if v \<le> 1 then 0 else Suc (high_bit (v div 2)))"

definition double_of_pos :: "nat \<Rightarrow> 64 word" where
  "double_of_pos v = (let e = high_bit v in of_nat ((e + 1023) * 2 ^ 52 + (v * 2 ^ (52 - e) - 2 ^ 52)))"

definition test5_doubles :: "64 word list" where
  "test5_doubles = map (\<lambda>i. double_of_pos (10 * (i + 1))) [0..<1024]"

text \<open>\<open>x\<close> is a local of the round: the second query leaves it alone if it stores nothing.\<close>

fun test5_rounds :: "int \<Rightarrow> nat \<Rightarrow> int \<Rightarrow> (int, 'r, test_vars, world) cmd" where
  "test5_rounds sock 0 status = done_with status"
| "test5_rounds sock (Suc k) status =
     chain (call (exists1 sock (Some (lit ''some_vec'')))) (\<lambda>(status, x).
     chain (cBYE status) (\<lambda>_.
     case x of None \<Rightarrow> fault Uninit_use
     | Some x \<Rightarrow>
         chain (bye_when (x \<noteq> True) (-1)) (\<lambda>_.
         chain (call (exists2 sock (Some (lit ''some_vec'')))) (\<lambda>(status, y).
         chain (cBYE status) (\<lambda>_.
         chain (bye_when ((case y of None \<Rightarrow> x | Some y \<Rightarrow> y) \<noteq> True) (-1)) (\<lambda>_.
         test5_rounds sock k status))))))"

definition test5 :: "int \<Rightarrow> int \<Rightarrow> world \<Rightarrow> (int, world) outcome" where
  "test5 sock niters = proc test_start
     (chain (make_data 1024 (array le64 test5_doubles)) (\<lambda>x.
      chain (call (set_vec sock (Some (lit ''some_vec'')) (Some (lit ''F8'')) x 1024 0)) (\<lambda>status.
      chain (cBYE status) (\<lambda>_.
      test5_rounds sock (nat niters) status))))
     (\<lambda>status _ w. Done status w)"

section \<open>test9\<close>

fun test9_rounds :: "int \<Rightarrow> int \<Rightarrow> ptr \<Rightarrow> nat \<Rightarrow> int \<Rightarrow> (int, 'r, test_vars, world) cmd" where
  "test9_rounds sock n x 0 status = done_with status"
| "test9_rounds sock n x (Suc k) status =
     chain (call (set_vec sock (Some (lit ''vecF8'')) (Some (lit ''F8'')) x (word_of_int n) 0)) (\<lambda>status.
     chain (cBYE status) (\<lambda>_.
     chain (call (get_vec_len sock (Some (lit ''vecF8'')))) (\<lambda>(status, out).
     chain (upd_loc (\<lambda>l. case out of None \<Rightarrow> l | Some v \<Rightarrow> l\<lparr>tv_chk_n := Some v\<rparr>)) (\<lambda>_.
     chain (cBYE status) (\<lambda>_.
     chain the_chk_n (\<lambda>chk_n.
     chain (bye_when (n \<noteq> chk_n) (-1)) (\<lambda>_.
     test9_rounds sock n x k status)))))))"

definition test9 :: "int \<Rightarrow> int \<Rightarrow> int \<Rightarrow> world \<Rightarrow> (int, world) outcome" where
  "test9 sock n niters = proc test_start
     (chain (make_data n (replicate (8 * nat n) 0)) (\<lambda>x.
      test9_rounds sock n x (nat niters) 0))
     test_end"

section \<open>Rounds\<close>

lemma lgl_reply_not_Nil [simp]: "lgl_reply b \<noteq> []"
  by (simp add: lgl_reply_def)

lemma short_names: "short_name (lit ''x'')" "short_name (lit ''vecF8'')" "short_name (lit ''some_vec'')"
  by (simp_all add: short_name_def lit_def)

lemma whole_first: "whole sock w0 m [] (Data bs # q) out w \<Longrightarrow> bs \<noteq> [] \<Longrightarrow> whole sock w0 m (bs @ []) q out w"
  by (auto simp: whole_def)

text \<open>The answers \<open>ys\<close> of the peer to the queries of \<open>test4\<close>, each behind the one to the assignment.\<close>

fun test4_replies :: "bool list \<Rightarrow> byte list list" where
  "test4_replies [] = []"
| "test4_replies (y # ys) = lgl_reply True # lgl_reply y # test4_replies ys"

fun alternating :: "int \<Rightarrow> bool list \<Rightarrow> bool" where
  "alternating i [] = True"
| "alternating i (y # ys) \<longleftrightarrow> y = even i \<and> alternating (i + 1) ys"

lemma test4_rounds_rule:
  assumes "0 < sock"
  shows "whole sock w0 m [] (map Data (test4_replies ys) @ q) out w \<Longrightarrow>
    (\<And>st q' out' w'. whole sock w0 m [] q' out' w' \<Longrightarrow> st = (if alternating i ys then 0 else -1) \<Longrightarrow> Q st l w' \<and> B st l w') \<Longrightarrow>
    wp False (test4_rounds sock (length ys) i 0) Q B R l w"
proof (induction ys arbitrary: i out w)
  case Nil
  then show ?case unfolding test4_rounds.simps list.size wp_simps by simp
next
  case (Cons y ys)
  have e: "(i mod 2 = 0) = even i" by presburger
  note h = whole_first [OF Cons.prems(1) [unfolded test4_replies.simps list.map append_Cons]]
  show ?case
    unfolding test4_rounds.simps list.size(4) Nat.add_Suc_right add_0_right Let_def e wp_simps
    apply (rule set_bool_whole [OF h], simp, use assms in simp, rule short_names)
    apply (simp add: wp_simps)
    apply (rule get_bool_whole [OF whole_first], assumption, simp, rule assms, rule short_names)
    apply (simp add: wp_simps)
    apply (intro conjI impI)
     apply (rule conjunct2 [OF Cons.prems(2)], assumption, simp)
    apply (rule Cons.IH, assumption, rule Cons.prems(2), assumption, simp)
    done
qed

text \<open>The block that the last \<open>get_vec\<close> gave, if any.\<close>

definition chk_held :: "test_vars \<Rightarrow> byte list \<Rightarrow> blocks \<Rightarrow> blocks \<Rightarrow> bool" where
  "chk_held l d m m' \<longleftrightarrow> tv_chk l = Null \<and> m' = m \<or> (\<exists>j. tv_chk l = Ptr j \<and> m j = None \<and> m' = m(j \<mapsto> d))"

lemma chk_held_Null [simp]: "chk_held (l\<lparr>tv_chk := Null\<rparr>) d m m"
  by (simp add: chk_held_def)

lemma free_chk:
  assumes "whole sock w0 m' bs q out w" "chk_held l d m m'" and Q: "\<And>w'. whole sock w0 m bs q out w' \<Longrightarrow> Q () w'"
  shows "runs blk (sys_free (tv_chk l) w) Q"
  using assms(2) unfolding chk_held_def
proof (elim disjE exE conjE)
  fix j assume j: "tv_chk l = Ptr j" "m j = None" "m' = m(j \<mapsto> d)"
  show ?thesis
    unfolding j(1) by (rule whole_channel.mem.free [OF assms(1)]) (use j Q in \<open>simp_all add: fun_upd_idem\<close>)
qed (use assms in simp)

lemma chk_held_at: "chk_held l d m m' \<Longrightarrow> m i = Some b \<Longrightarrow> m' i = Some b"
  by (auto simp: chk_held_def)

lemma the_chk_n_rule: "tv_chk_n l = Some n \<Longrightarrow> Q n l w \<Longrightarrow> wp blk the_chk_n Q B R l w"
  by (simp add: the_chk_n_def wp_simps)

lemma read_doubles_rule:
  assumes "whole sock w0 m bs q out w" "m i = Some (array le64 xs)" "xs \<noteq> []" "Q xs l w"
  shows "wp blk (read_doubles (Ptr i) (length xs)) Q B R l w"
  using assms unfolding read_doubles_def
  by (auto simp: wp_simps double_elt.length_array double_elt.elements_array intro!: whole_channel.mem.load)

definition ack :: "byte list" where
  "ack = enc_phdr \<lparr>cmd = RESP_OK, len = 0, msg_id = 0, res = 0\<rparr>"

definition test1_replies :: "64 word list \<Rightarrow> nat \<Rightarrow> byte list list" where
  "test1_replies xs k = concat (replicate k [ack, sexp_reply XT_ARRAY_DOUBLE (array le64 xs)])"

lemma test1_replies_simps [simp]:
  "test1_replies xs 0 = []"
  "test1_replies xs (Suc k) = ack # sexp_reply XT_ARRAY_DOUBLE (array le64 xs) # test1_replies xs k"
  by (simp_all add: test1_replies_def)

lemma ack_facts: "ack \<noteq> []" "fits_packet (length (lit ''vecF8''))" "lit ''vecF8'' \<noteq> []" "length (lit ''vecF8'') = 5"
  by (simp_all add: ack_def fits_packet_def lit_def)

lemma double_eq_refl: "list_all2 double_eq xs xs \<longleftrightarrow> list_all (\<lambda>x. \<not> is_nan x) xs"
  by (induction xs) (auto simp: double_eq_def)

lemma test1_rounds_rule:
  assumes sock: "0 < sock" and n: "n = int (length xs)" "xs \<noteq> []" "8 * length xs < 2 ^ 24" and d: "d = array le64 xs" and i: "m i = Some d"
  shows "whole sock w0 m' [] (map Data (test1_replies xs k) @ q) out w \<Longrightarrow> tv_x l = Ptr i \<Longrightarrow> chk_held l d m m' \<Longrightarrow>
    (\<And>st q' out' m'' l' w'. whole sock w0 m'' [] q' out' w' \<Longrightarrow> tv_x l' = Ptr i \<Longrightarrow> chk_held l' d m m'' \<Longrightarrow>
      st = (if k = 0 \<or> list_all (\<lambda>x. \<not> is_nan x) xs then 0 else -1) \<Longrightarrow> Q st l' w' \<and> B st l' w') \<Longrightarrow>
    wp False (test1_rounds sock n (Ptr i) k 0) Q B R l w"
proof (induction k arbitrary: out w l m')
  case 0
  then show ?case unfolding test1_rounds.simps wp_simps by simp
next
  case (Suc k)
  have held: "tv_chk l = Ptr j \<Longrightarrow> m j = None \<Longrightarrow> chk_held l d m (m(j \<mapsto> array le64 xs))" for j l
    using d by (simp add: chk_held_def)
  have at: "m j = None \<Longrightarrow> (m(j \<mapsto> b)) i = Some (array le64 xs)" for j b
    using i d by auto
  have wn: "word_of_int n = (of_nat (length xs) :: u32)" using n by simp
  note h = whole_first [OF Suc.prems(1) [unfolded test1_replies_simps list.map append_Cons] ack_facts(1)]
  show ?case
    unfolding test1_rounds.simps Let_def wn wp_simps
    apply (rule set_vec_whole [OF h [unfolded ack_def]], simp, use sock in simp, rule ack_facts, rule n)
      apply (use n ack_facts in simp)
     apply (use chk_held_at [OF Suc.prems(3) i] d in simp)
    apply (simp add: wp_simps)
    apply (rule free_chk [OF _ Suc.prems(3)], assumption)
    apply (rule get_vec_whole [OF whole_first], assumption, simp, use sock in simp, rule ack_facts, rule n)
    apply (simp add: wp_simps n(1))
    apply (rule the_chk_n_rule, simp)
    apply simp
    apply (rule read_doubles_rule, assumption, erule at, rule n)
    apply (rule read_doubles_rule, assumption, simp, rule n)
    apply (simp add: double_eq_refl)
    apply (intro conjI impI)
     apply (rule conjunct2 [OF Suc.prems(4)], assumption, simp add: Suc.prems, rule held, simp, assumption, simp add: list_all_iff)
    apply (rule Suc.IH [unfolded n(1)], assumption, simp add: Suc.prems, rule held, simp, assumption)
    apply (rule Suc.prems(4), assumption+, simp)
    done
qed

section \<open>Whole scenarios\<close>

text \<open>The doubles that \<open>test1\<close> sends in the world \<open>w\<close>: its \<open>n\<close> bytes, then what \<open>malloc\<close> left in the block.\<close>

definition test1_doubles :: "nat \<Rightarrow> world \<Rightarrow> 64 word list" where
  "test1_doubles n w = elements 8 le_dec
     (map (\<lambda>i. word_of_int (10 * (int i + 1))) [0..<n] @ map (junk w (next_id w)) [n..<8 * n])"

lemma size_of_doubles: "8 * n < 2 ^ 24 \<Longrightarrow> unat (size_of_int (int n) * 8) = 8 * n"
  using unat_of_nat_size [of "n * 8"] by (simp add: size_of_int_def mult.commute)

lemma test_end_rule:
  assumes "whole sock w0 m'' bs q out w" "tv_x l = Ptr i" "chk_held l d [i \<mapsto> e] m''"
    and Q: "\<And>w'. heap w' = heap w0 \<Longrightarrow> Q st w'" and wf: "wf_heap w0"
  shows "runs False (test_end st l w) Q"
proof -
  have "frees [tv_x l, tv_chk l] m'' Map.empty"
    using assms(2,3) by (auto simp: chk_held_def)
  then show ?thesis
    unfolding test_end_def runs_obind by (rule whole_channel.mem.free_frees [OF assms(1)]) (simp add: Q since_heap [OF wf whole_since])
qed

lemma make_data_rule:
  assumes h: "whole sock w0 m bs q out w" and n: "8 * n < 2 ^ 24" "length a \<le> 8 * n" "a \<noteq> []"
    and Q: "\<And>w' i. whole sock w0 (m(i \<mapsto> a @ map (junk w (next_id w)) [length a..<8 * n])) bs q out w' \<Longrightarrow> m i = None \<Longrightarrow>
      Q (Ptr i) (l\<lparr>tv_x := Ptr i\<rparr>) w'"
  shows "wp False (make_data (int n) a) Q B R l w"
proof -
  have u: "unat (size_of_int (int n) * 8) = 8 * n" by (rule size_of_doubles [OF n(1)])
  have j: "drop (length a) (map (junk w (next_id w)) [0..<8 * n]) = map (junk w (next_id w)) [length a..<8 * n]"
    by (simp add: drop_map)
  show ?thesis
    unfolding make_data_def wp_simps if_not_P [OF n(3)]
    apply (rule runs_sys_malloc_whole_exact [OF h])
     apply (use u n in \<open>simp add: ptrdiff_max_def\<close>)
    apply (simp only: u)
    apply (rule whole_channel.mem.store, assumption, simp, use n in simp)
    apply (rule Q, simp_all add: j)
    done
qed

section \<open>The other rounds\<close>

fun test9_replies :: "u32 list \<Rightarrow> byte list list" where
  "test9_replies [] = []"
| "test9_replies (v # vs) = ack # sexp_reply XT_ARRAY_INT (int_array [v]) # test9_replies vs"

lemma test9_rounds_rule:
  assumes sock: "0 < sock" and n: "n = int (length xs)" "xs \<noteq> []" "8 * length xs < 2 ^ 24" and i: "m i = Some (array le64 xs)"
  shows "whole sock w0 m [] (map Data (test9_replies vs) @ q) out w \<Longrightarrow> tv_x l = Ptr i \<Longrightarrow> tv_chk l = Null \<Longrightarrow>
    (\<And>st q' out' l' w'. whole sock w0 m [] q' out' w' \<Longrightarrow> tv_x l' = Ptr i \<Longrightarrow> tv_chk l' = Null \<Longrightarrow>
      st = (if \<forall>v \<in> set vs. sint v = n then 0 else -1) \<Longrightarrow> Q st l' w' \<and> B st l' w') \<Longrightarrow>
    wp False (test9_rounds sock n (Ptr i) (length vs) 0) Q B R l w"
proof (induction vs arbitrary: out w l)
  case Nil
  then show ?case unfolding test9_rounds.simps list.size wp_simps by simp
next
  case (Cons v vs)
  have wn: "word_of_int n = (of_nat (length xs) :: u32)" using n by simp
  note h = whole_first [OF Cons.prems(1) [unfolded test9_replies.simps list.map append_Cons] ack_facts(1)]
  show ?case
    unfolding test9_rounds.simps list.size(4) Nat.add_Suc_right add_0_right wn wp_simps
    apply (rule set_vec_whole [OF h [unfolded ack_def]], simp, use sock in simp, rule ack_facts, rule n)
      apply (use n ack_facts in simp)
     apply (rule i)
    apply (simp add: wp_simps)
    apply (rule get_vec_len_whole [OF whole_first], assumption, simp, use sock in simp, rule short_names)
    apply (simp add: wp_simps)
    apply (rule the_chk_n_rule, simp)
    apply (intro conjI impI)
     apply (rule conjunct2 [OF Cons.prems(4)], assumption, simp add: Cons.prems, simp add: Cons.prems, simp)
    apply (rule subst, assumption, rule Cons.IH, assumption, simp add: Cons.prems, simp add: Cons.prems)
    apply (rule Cons.prems(4), assumption+, simp)
    done
qed

fun test5_replies :: "(bool \<times> bool) list \<Rightarrow> byte list list" where
  "test5_replies [] = []"
| "test5_replies ((x, y) # ys) = lgl_reply x # lgl_reply y # test5_replies ys"

lemma exists2_whole:
  assumes "whole sock w0 m (lgl_reply b @ bs) q out w" "0 \<le> sock" "short_name n"
    and "\<And>w'. whole sock w0 m bs q (out @ eval_request True (exists_text n)) w' \<Longrightarrow> Q (0, Some b) w'"
  shows "runs False (exists2 sock (Some n) w) Q"
  unfolding exists2_def
  by (rule segment_reader.ans.exists2_rule [OF assms(1) [unfolded lgl_reply_def]])
    (use assms in \<open>auto simp: answerable_def fits_packet_def short_name_def XT_ARRAY_BOOL_def\<close>)

lemma test5_rounds_rule:
  assumes "0 < sock"
  shows "whole sock w0 m [] (map Data (test5_replies ys) @ q) out w \<Longrightarrow>
    (\<And>st bs q' out' w'. whole sock w0 m bs q' out' w' \<Longrightarrow> st = (if \<forall>y \<in> set ys. y = (True, True) then 0 else -1) \<Longrightarrow> Q st l w' \<and> B st l w') \<Longrightarrow>
    wp False (test5_rounds sock (length ys) 0) Q B R l w"
proof (induction ys arbitrary: out w)
  case Nil
  then show ?case unfolding test5_rounds.simps list.size wp_simps by simp
next
  case (Cons y ys)
  obtain a b where y: "y = (a, b)" by (cases y)
  note h = whole_first [OF Cons.prems(1) [unfolded y test5_replies.simps list.map append_Cons]]
  show ?case
    unfolding test5_rounds.simps list.size(4) Nat.add_Suc_right add_0_right wp_simps y
    apply (rule exists1_whole [OF h], simp, use assms in simp, rule short_names)
    apply (simp add: wp_simps)
    apply (intro conjI impI)
     apply (rule conjunct2 [OF Cons.prems(2)], assumption, simp add: y)
    apply (rule exists2_whole [OF whole_first], assumption, simp, use assms in simp, rule short_names)
    apply (simp add: wp_simps)
    apply (intro conjI impI)
     apply (rule conjunct2 [OF Cons.prems(2)], assumption, simp add: y)
    apply (rule Cons.IH, assumption, rule Cons.prems(2), assumption, simp add: y)
    done
qed

section \<open>Verdicts\<close>

text \<open>\<open>test4\<close> reports every wrong answer; \<open>test9\<close> every wrong length.\<close>

lemma test4_verdict:
  assumes "faces sock (test4_replies ys) q w"
  shows "\<exists>w'. test4 sock (int (length ys)) w = Done (if alternating 0 ys then 0 else -1) w' \<and> heap w' = heap w"
proof -
  have wf: "wf_heap w" and sock: "0 < sock" and h: "whole sock w Map.empty [] (map Data (test4_replies ys) @ q) (sent sock w) w"
    using assms by (simp_all add: faces_def)
  have "runs False (test4 sock (int (length ys)) w) (\<lambda>st w'. st = (if alternating 0 ys then 0 else -1) \<and> heap w' = heap w)"
    unfolding test4_def runs_proc nat_int
    by (rule test4_rounds_rule [OF sock h]) (auto intro: since_heap [OF wf] whole_since)
  then show ?thesis by (auto dest!: runs_total)
qed

lemma test9_verdict:
  assumes "faces sock (test9_replies vs) q w" "0 < n" "8 * n < 2 ^ 24"
  shows "\<exists>w'. test9 sock (int n) (int (length vs)) w =
      Done (if \<forall>v \<in> set vs. sint v = int n then 0 else -1) w' \<and> heap w' = heap w"
proof -
  let ?v = "if \<forall>v \<in> set vs. sint v = int n then 0 else -1 :: int"
  have wf: "wf_heap w" and sock: "0 < sock" and h: "whole sock w Map.empty [] (map Data (test9_replies vs) @ q) (sent sock w) w"
    using assms(1) by (simp_all add: faces_def)
  let ?F = "\<lambda>st l w'. runs False (test_end st l w') (\<lambda>st w'. st = ?v \<and> heap w' = heap w)"
  define d where "d = replicate (8 * n) (0 :: byte)"
  obtain xs :: "64 word list" where d: "d = array le64 xs" "length xs = n"
    using array_le64_elements [of d n] that [of "elements 8 le_dec d"] by (simp add: d_def)
  have len: "length d \<le> 8 * n" "d \<noteq> []" and l8: "length d = 8 * n" using assms(2) by (simp_all add: d_def)
  have xs: "int n = int (length xs)" "xs \<noteq> []" "8 * length xs < 2 ^ 24" using assms d by auto
  have end_rule: "?F st l' w' \<and> ?F st l' w'"
    if "whole sock w [i \<mapsto> d] [] q' out' w'" "tv_x l' = Ptr i" "tv_chk l' = Null" "st = ?v" for st l' w' i q' out'
    by (intro conjI; rule test_end_rule [OF that(1,2), where d = d]) (use that wf in \<open>simp_all add: chk_held_def\<close>)
  have "runs False (test9 sock (int n) (int (length vs)) w) (\<lambda>st w'. st = ?v \<and> heap w' = heap w)"
    unfolding test9_def runs_proc wp_chain nat_int d_def [symmetric]
    apply (rule make_data_rule [OF h assms(3) len])
    apply (simp only: l8 upt_conv_Nil [OF order_refl] list.map append_Nil2)
    apply (rule test9_rounds_rule [OF sock xs, rotated], assumption, simp, simp)
     apply (erule (3) end_rule)
    apply (simp add: d)
    done
  then show ?thesis by (auto dest!: runs_total)
qed

lemma since_one_block:
  assumes "wf_heap w" "since sock w [i \<mapsto> b] w'"
  shows "heap w i = None \<and> heap w' = (heap w)(i \<mapsto> b)"
proof -
  have i: "next_id w \<le> i" using assms(2) by (force simp: since_def not_less)
  have "heap w' j = ((heap w)(i \<mapsto> b)) j" for j
  proof (cases "j < next_id w")
    case False
    then have "heap w' j = [i \<mapsto> b] j" "heap w j = None" using assms by (simp_all add: since_def wf_heap_def)
    then show ?thesis by simp
  qed (use i assms(2) in \<open>auto simp: since_def\<close>)
  then show ?thesis using i assms(1) by (auto simp: wf_heap_def)
qed

text \<open>Against a peer that acknowledges the vector and answers the queries of \<open>test5\<close> with \<open>ys\<close>, the scenario
  passes exactly if every answer is true; pass or fail, the block with the 1024 doubles is never freed.\<close>

theorem test5_leaks:
  assumes "faces sock (ack # test5_replies ys) q w"
  shows "\<exists>i w'. test5 sock (int (length ys)) w = Done (if \<forall>y \<in> set ys. y = (True, True) then 0 else -1) w' \<and>
      heap w i = None \<and> heap w' = (heap w)(i \<mapsto> array le64 test5_doubles)"
proof -
  let ?v = "if \<forall>y \<in> set ys. y = (True, True) then 0 else -1 :: int"
  let ?P = "\<lambda>st w'. st = ?v \<and> (\<exists>i. heap w i = None \<and> heap w' = (heap w)(i \<mapsto> array le64 test5_doubles))"
  have wf: "wf_heap w" and sock: "0 < sock"
    and h: "whole sock w Map.empty [] (Data ack # map Data (test5_replies ys) @ q) (sent sock w) w"
    using assms by (simp_all add: faces_def)
  have len: "length test5_doubles = 1024" by (simp add: test5_doubles_def)
  then have ne: "test5_doubles \<noteq> []" by auto
  have l8: "length (array le64 test5_doubles) = 8 * 1024" by (simp only: double_elt.length_array len)
  then have an: "array le64 test5_doubles \<noteq> []" by auto
  have n: "(1024 :: u32) = of_nat (length test5_doubles)" "(1024 :: int) = int 1024" by (simp_all add: len)
  have "runs False (test5 sock (int (length ys)) w) ?P"
    unfolding test5_def runs_proc wp_chain nat_int n
    apply (rule make_data_rule [OF h [unfolded ack_def]], simp, simp only: l8 order_refl, rule an)
    apply (simp only: l8 upt_conv_Nil [OF order_refl] list.map append_Nil2)
    apply (rule wp_call [THEN iffD2])
    apply (rule set_vec_whole [OF whole_first [OF _ ack_facts(1) [unfolded ack_def]]])
          apply assumption
         apply simp
        apply (rule less_imp_le [OF sock])
       apply (simp only: lit_Nil list.distinct not_False_eq_True)
      apply (rule ne)
     apply (simp only: len length_lit)
     apply simp
    apply (simp only: fun_upd_same)
    apply (simp only: wp_simps less_irrefl if_False)
    apply (rule test5_rounds_rule [OF sock], assumption)
    apply (rule conjI; rule conjI, assumption, rule exI, erule since_one_block [OF wf whole_since])
    done
  from runs_total [OF this] show ?thesis
    apply (elim exE conjE)
    subgoal for st w' i
      by (rule exI [of _ i], rule exI [of _ w']) (intro conjI, simp only:, assumption+)
    done
qed

theorem test5_leaks_witness:
  "\<exists>i w'. test5 3 1 ((peer_world (ack # test5_replies [(True, False)]))\<lparr>junk := \<lambda>_ _. 0\<rparr>) = Done (-1) w' \<and> heap w' i \<noteq> None"
  using test5_leaks [OF faces_peer, of "[(True, False)]" "\<lambda>_ _. 0"] by force

text \<open>C33. The data of \<open>test1\<close> are \<open>n\<close> bytes and \<open>7*n\<close> bytes of whatever \<open>malloc\<close> found, taken as \<open>n\<close> doubles. Against
  a peer that gives back exactly the doubles it was sent, the scenario passes only if none of them is a NaN; it keeps no block.\<close>

theorem test1_verdict:
  assumes "faces sock (test1_replies (test1_doubles n w) k) q w" and "0 < n" "8 * n < 2 ^ 24"
  shows "\<exists>w'. test1 sock (int n) (int k) w =
      Done (if k = 0 \<or> list_all (\<lambda>x. \<not> is_nan x) (test1_doubles n w) then 0 else -1) w' \<and> heap w' = heap w"
proof -
  define a :: "byte list" where "a = map (\<lambda>i. word_of_int (10 * (int i + 1))) [0..<n]"
  define xs where "xs = test1_doubles n w"
  define v :: int where "v = (if k = 0 \<or> list_all (\<lambda>x. \<not> is_nan x) xs then 0 else -1)"
  let ?d = "a @ map (junk w (next_id w)) [n..<8 * n]"
  have a: "length a = n" by (simp add: a_def)
  have small: "\<not> int_max < 10 * int n" using assms(3) by simp
  from a have len: "length a \<le> 8 * n" "a \<noteq> []" using assms(2) by auto
  have "xs = elements 8 le_dec ?d" by (simp only: xs_def test1_doubles_def a_def)
  then have d: "?d = array le64 xs" and xs: "length xs = n"
    using array_le64_elements [of ?d n] by (simp_all add: a)
  have sock: "0 < sock" and wf: "wf_heap w"
    and h: "whole sock w Map.empty [] (map Data (test1_replies xs k) @ q) (sent sock w) w"
    using assms(1) by (simp_all add: faces_def xs_def)
  let ?F = "\<lambda>st l w'. runs False (test_end st l w') (\<lambda>st w'. st = v \<and> heap w' = heap w)"
  have rounds: "wp False (test1_rounds sock (int n) (Ptr i) k 0) ?F ?F R l w'"
    if "whole sock w [i \<mapsto> ?d] [] (map Data (test1_replies xs k) @ q) out w'" "l = test_start\<lparr>tv_x := Ptr i\<rparr>" for i out w' l R
  proof (rule test1_rounds_rule [where xs = xs and i = i and d = ?d and m = "[i \<mapsto> ?d]", OF sock _ _ _ d _ that(1)])
    fix st :: int and q' out' m'' l' w''
    assume e: "whole sock w m'' [] q' out' w''" "tv_x l' = Ptr i" "chk_held l' ?d [i \<mapsto> ?d] m''"
      and st: "st = (if k = 0 \<or> list_all (\<lambda>x. \<not> is_nan x) xs then 0 else -1)"
    from e have "?F st l' w''" by (rule test_end_rule) (simp_all add: st v_def wf)
    then show "?F st l' w'' \<and> ?F st l' w''" by simp
  qed (use assms(2,3) xs that(2) in \<open>auto simp: chk_held_def\<close>)
  have "runs False (test1 sock (int n) (int k) w) (\<lambda>st w'. st = v \<and> heap w' = heap w)"
    unfolding test1_def runs_proc wp_chain nat_int a_def [symmetric]
    by (rule make_data_rule [OF h assms(3) len]) (simp only: small if_False wp_done_with, rule rounds, simp_all add: a)
  then show ?thesis unfolding v_def xs_def by (auto dest!: runs_total)
qed

lemma test1_data_at:
  "test1_doubles 1 ((peer_world rs)\<lparr>junk := \<lambda>_ _. 0xFF\<rparr>) = [0xFFFFFFFFFFFFFF0A]"
  "test1_doubles 1 ((peer_world rs)\<lparr>junk := \<lambda>_ _. 0\<rparr>) = [0x0A]"
  by (simp_all add: test1_doubles_def elements_def chop.simps peer_world_def upt_rec)

lemma nan_bits: "is_nan 0xFFFFFFFFFFFFFF0A" "\<not> is_nan 0x0A"
  by (simp_all add: is_nan_def)

theorem test1_verdict_witness:
  "(\<exists>w'. test1 3 1 1 ((peer_world (test1_replies [0xFFFFFFFFFFFFFF0A] 1))\<lparr>junk := \<lambda>_ _. 0xFF\<rparr>) = Done (-1) w') \<and>
   (\<exists>w'. test1 3 1 1 ((peer_world (test1_replies [0x0A] 1))\<lparr>junk := \<lambda>_ _. 0\<rparr>) = Done 0 w')"
proof (intro conjI)
  let ?w = "(peer_world (test1_replies [0xFFFFFFFFFFFFFF0A] 1))\<lparr>junk := \<lambda>_ _. 0xFF\<rparr>"
  have "faces 3 (test1_replies (test1_doubles 1 ?w) 1) [Eof] ?w"
    unfolding test1_data_at by (rule faces_peer)
  from test1_verdict [OF this, unfolded test1_data_at] show "\<exists>w'. test1 3 1 1 ?w = Done (-1) w'"
    by (auto simp: nan_bits)
  let ?w = "(peer_world (test1_replies [0x0A] 1))\<lparr>junk := \<lambda>_ _. 0\<rparr>"
  have "faces 3 (test1_replies (test1_doubles 1 ?w) 1) [Eof] ?w"
    unfolding test1_data_at by (rule faces_peer)
  from test1_verdict [OF this, unfolded test1_data_at] show "\<exists>w'. test1 3 1 1 ?w = Done 0 w'"
    by (auto simp: nan_bits)
qed

end
