(* ===== verification/Client.thy ===== *)
theory Client
  imports Session Connection
begin

text \<open>
  The whole life of a client: connect, a sequence of calls, close, as the programs that use the library have it
  (test/unit_test_1.c closes with \<open>close_conn\<close>). The theorems of Connection and Session meet here.
\<close>

definition client_life ::
    "cstr \<Rightarrow> int \<Rightarrow> int \<Rightarrow> int \<Rightarrow> api_call list \<Rightarrow> world \<Rightarrow> (int \<times> api_result list, world) outcome" where
  "client_life server portnum snd_timeout rcv_timeout cs w =
     obind (rconnect (Some server) portnum snd_timeout rcv_timeout w) (\<lambda>(status, out) w.
     case out of None \<Rightarrow> Done (status, []) w
     | Some sock \<Rightarrow>
         obind (perform_all sock cs w) (\<lambda>xs w.
         obind (close_conn sock w) (\<lambda>status. Done (status, xs))))"

lemma close_conn_rule:
  "0 \<le> sock \<Longrightarrow> (\<And>st. (st = 0 \<or> st = -1) \<Longrightarrow> Q st (w\<lparr>socks := (socks w)(sock := None)\<rparr>)) \<Longrightarrow> runs blk (close_conn sock w) Q"
  by (auto simp: close_conn_def sys_close_def fun_upd_idem)

lemma drain_greeting: "length g = 32 \<Longrightarrow> drain 32 (Data g # q) = q"
  by (simp add: drain_Data)

text \<open>A peer that greets and then answers the calls.\<close>

definition greets_and_answers :: "byte list \<Rightarrow> api_call list \<Rightarrow> api_result list \<Rightarrow> rcv_event list \<Rightarrow> conn \<Rightarrow> bool" where
  "greets_and_answers g cs xs q c \<longleftrightarrow> length g = 32 \<and> take 12 g = lit ''Rsrv0103QAP1'' \<and>
     inq c = Data g # map Data (map2 reply_of cs xs) @ q \<and> sndq c = [] \<and> outb c = []"

text \<open>C5. A client that connects to a server which greets it and answers as the environment of R variables does gets
  exactly the results of that environment, and when it has closed the connection nothing is left behind: no block, no
  descriptor.\<close>

theorem client_life_refines_env:
  assumes "wf_heap w" "mallocs w = []" "sockopts w = []" "fds w = fd # r" "0 < fd" "socks w fd = None" "0 < portnum"
    and "parse_ipv4 s = Some addr" "listeners w addr (word_of_int portnum) = Some c"
    and "greets_and_answers g cs xs q c" and "env_run cs renv = Some (xs, renv')"
    and "list_all call_fits cs" "list_all result_fits xs"
  shows "\<exists>w'. client_life s portnum snd_timeout rcv_timeout cs w = Done (0, xs) w' \<and> heap w' = heap w \<and> socks w' = socks w"
proof -
  let ?q = "map Data (map2 reply_of cs xs) @ q"
  let ?c = "c\<lparr>inq := ?q, rcv_timeo := rcv_timeo c \<or> 0 < rcv_timeout\<rparr>"
  let ?w = "put_conn fd ?c (w\<lparr>fds := r\<rparr>)"
  have c: "inq c = Data g # ?q" "sndq c = []" "outb c = []" "length g = 32" "take 12 g = lit ''Rsrv0103QAP1''"
    using assms(10) by (simp_all add: greets_and_answers_def)
  have conn: "rconnect (Some s) portnum snd_timeout rcv_timeout w = Done (0, Some fd) ?w"
    using rconnect_greeting [OF assms(4) _ assms(7,3,8,9), of snd_timeout rcv_timeout] assms(5) c by (simp add: drain_greeting)
  have wf: "wf_heap ?w" using assms(1) by (simp add: wf_heap_def)
  have h: "whole fd ?w Map.empty [] ?q [] ?w"
    using wf c assms(2) by (auto intro!: wholeI since_start)
  have post: "heap w' = heap w \<and> (\<forall>s. s \<noteq> fd \<longrightarrow> socks w' s = socks w s) \<and> socks w' fd \<noteq> None"
    if "whole fd ?w Map.empty [] q out w'" for w' out
  proof (intro conjI)
    show "heap w' = heap w" using since_heap [OF wf whole_since [OF that]] by simp
    show "\<forall>s. s \<noteq> fd \<longrightarrow> socks w' s = socks w s" using since_socks [OF whole_since [OF that]] by simp
    show "socks w' fd \<noteq> None" by (rule wholeE [OF that]) simp
  qed
  have run: "runs False (perform_all fd cs ?w) (\<lambda>ys w'. ys = xs \<and> heap w' = heap w \<and> (\<forall>s. s \<noteq> fd \<longrightarrow> socks w' s = socks w s)
      \<and> socks w' fd \<noteq> None)"
    by (rule runs_mono [OF perform_all_rule [OF h assms(5,11-13)]]) (use post in blast)
  show ?thesis
    using runs_total [OF run] assms(5,6)
    by (auto simp: client_life_def conn close_conn_def sys_close_def fun_eq_iff)
qed


lemma perform_all_length: "perform_all sock cs w = Done xs w' \<Longrightarrow> length xs = length cs"
  by (induction cs arbitrary: w xs) (auto simp: obind_def split: outcome.splits)

text \<open>C6. Any server, any network: the life of a client that makes safe calls has no undefined behaviour, keeps the heap and
  all other descriptors, and reports 0 only with every call made and its own descriptor closed again. It waits for
  ever only if no receive timeout was asked for and the server neither closes nor times out.\<close>

theorem client_life_safe:
  assumes "wf_heap w" "list_all safe_call cs"
  shows "runs (rcv_timeout \<le> 0 \<and> \<not> answering w) (client_life s portnum snd_timeout rcv_timeout cs w) (\<lambda>(st, xs) w'.
    heap w' = heap w \<and> (\<forall>d. fds w = [] \<or> d \<noteq> hd (fds w) \<longrightarrow> socks w' d = socks w d) \<and>
    (st = 0 \<longrightarrow> length xs = length cs \<and> socks w' (hd (fds w)) = None))"
proof (cases "\<exists>fd r. 0 < portnum \<and> fds w = fd # r \<and> 0 \<le> fd")
  case False
  then show ?thesis
    by (auto simp: client_life_def rconnect_def wp_simps sys_socket_def split: option.splits list.splits)
next
  case True
  then obtain fd r where f: "0 < portnum" "fds w = fd # r" "0 \<le> fd" by blast
  let ?blk = "rcv_timeout \<le> 0 \<and> \<not> answering w"
  show ?thesis
    unfolding client_life_def runs_obind
  proof (rule runs_rconnect [OF assms(1) f], goal_cases)
    case (3 w1)
    have all: "runs ?blk (perform_all fd cs w1) (\<lambda>xs w'. perform_all fd cs w1 = Done xs w' \<and> session fd w1 w')"
      using perform_all_session [OF session.start [OF 3(1)] assms(2), of fd] 3(2)
      by (auto simp: runs_def split: outcome.splits)
    show ?case
      unfolding prod.case option.case runs_obind
    proof (rule runs_mono [OF all])
      fix xs w2 assume w2: "perform_all fd cs w1 = Done xs w2 \<and> session fd w1 w2"
      then have "since fd w1 Map.empty w2" using session_since by blast
      then have "heap w2 = heap w" "\<forall>s. s \<noteq> fd \<longrightarrow> socks w2 s = socks w s"
        using since_heap [OF 3(1)] since_socks 3(3,4) by metis+
      with w2 f show "runs ?blk (close_conn fd w2) (\<lambda>a s. runs ?blk (Done (a, xs) s)
        (\<lambda>(st, xs) w'. heap w' = heap w \<and> (\<forall>d. fds w = [] \<or> d \<noteq> hd (fds w) \<longrightarrow> socks w' d = socks w d) \<and>
          (st = 0 \<longrightarrow> length xs = length cs \<and> socks w' (hd (fds w)) = None)))"
        by (intro close_conn_rule) (auto dest: perform_all_length)
    qed
  qed (use f in \<open>auto\<close>)
qed

theorem client_life_safe_witness:
  "\<exists>st xs w'. client_life (lit ''127.0.0.1'') 6311 0 5 [Set_bool (lit ''x'') True, Get_bool (lit ''x'')]
     (listening_world [1, 2, 3]) = Done (st, xs) w' \<and> heap w' = Map.empty"
proof -
  let ?cs = "[Set_bool (lit ''x'') True, Get_bool (lit ''x'')]" and ?w = "listening_world [1, 2, 3]"
  have w: "wf_heap ?w" "heap ?w = Map.empty" by (simp_all add: listening_world_def peer_world_def wf_heap_def)
  have cs: "list_all safe_call ?cs" by (simp add: short_name_def lit_def)
  have "\<not> ((5 :: int) \<le> 0 \<and> \<not> answering ?w)" by simp
  with client_life_safe [OF w(1) cs, of 5 "lit ''127.0.0.1''" 6311 0]
  have "runs False (client_life (lit ''127.0.0.1'') 6311 0 5 ?cs ?w) (\<lambda>_ w'. heap w' = Map.empty)"
    by (simp only: w(2)) (auto elim!: runs_mono)
  then show ?thesis by (auto dest!: runs_total)
qed

theorem client_life_refines_env_witness:
  "\<exists>w'. client_life (lit ''127.0.0.1'') 6311 0 0 [Set_bool (lit ''x'') True, Get_bool (lit ''x'')]
     ((listening_world [])\<lparr>listeners := (\<lambda>_ _. Some (peer_conn ((lit ''Rsrv0103QAP1'' @ replicate 20 45) #
        map2 reply_of [Set_bool (lit ''x'') True, Get_bool (lit ''x'')] [Status 0, Flag 0 (Some True)]) [Eof]))\<rparr>) =
     Done (0, [Status 0, Flag 0 (Some True)]) w'"
proof -
  let ?cs = "[Set_bool (lit ''x'') True, Get_bool (lit ''x'')]" and ?xs = "[Status 0, Flag 0 (Some True)]"
  let ?g = "lit ''Rsrv0103QAP1'' @ replicate 20 45"
  let ?c = "peer_conn (?g # map2 reply_of ?cs ?xs) [Eof]"
  let ?w = "(listening_world [])\<lparr>listeners := (\<lambda>_ _. Some ?c)\<rparr>"
  have g: "greets_and_answers ?g ?cs ?xs [Eof] ?c" by (simp add: greets_and_answers_def peer_conn_def)
  have e: "env_run ?cs Map.empty = Some (?xs, [lit ''x'' \<mapsto> Lgl True])" by (simp add: lit_def)
  have f: "list_all call_fits ?cs" "list_all result_fits ?xs" by (simp_all add: short_name_def lit_def)
  have w: "wf_heap ?w" "mallocs ?w = []" "sockopts ?w = []" "fds ?w = [5]" "socks ?w 5 = None"
    by (simp_all add: listening_world_def peer_world_def wf_heap_def)
  show ?thesis
    using client_life_refines_env [OF w(1-4) _ w(5) _ localhost(1) _ g e f, of 6311 0 0] by force
qed

end
