(* ===== verification/Server_View.thy ===== *)
theory Server_View
  imports Session
begin

text \<open>
  The other end of the wire: a strict reader of what the client sends, written from the comments of rincs/Rsrv.h.
  It cuts the stream into packets and a packet into parameters. The property says that a session's requests come
  out as the commands the caller asked for, one by one; only the assignments do not, because \<open>set_vec\<close> states a
  parameter length that is larger than the packet.
\<close>

section \<open>The reader\<close>

text \<open>Packets: a header and as many bytes as it says.\<close>

function parse_packets :: "byte list \<Rightarrow> (u32 \<times> byte list) list option" where
  "parse_packets bs =
     (if bs = [] then Some []
      else if length bs < 16 then None
      else let ph = dec_phdr bs; n = unat (len ph); rest = drop 16 bs in
        if length rest < n then None
        else map_option ((#) (cmd ph, take n rest)) (parse_packets (drop n rest)))"
  by pat_completeness auto
termination by (relation "measure length") auto

declare parse_packets.simps [simp del]

text \<open>Parameters: a word of type and length, and as many bytes as it says. The long form of the word, which the client
  never sends, is not read.\<close>

function parse_params :: "byte list \<Rightarrow> (u32 \<times> byte list) list option" where
  "parse_params bs =
     (if bs = [] then Some []
      else if length bs < 4 then None
      else let x = u32_at bs 0; n = unat (PAR_LEN x); rest = drop 4 bs in
        if IS_LARGE (PAR_TYPE x) \<or> length rest < n then None
        else map_option ((#) (PAR_TYPE x, take n rest)) (parse_params (drop n rest)))"
  by pat_completeness auto
termination by (relation "measure length") auto

declare parse_params.simps [simp del]

text \<open>The command of a packet, if it is well formed.\<close>

datatype command = Eval cstr | Set_sexp cstr "byte list"

fun command_of :: "u32 \<times> byte list \<Rightarrow> command option" where
  "command_of (c, payload) = (case parse_params payload of
       Some [(t, d)] \<Rightarrow>
         if c = CMD_eval \<and> t = DT_STRING \<and> 0 \<in> set d then Some (Eval (takeWhile (\<lambda>b. b \<noteq> 0) d)) else None
     | Some [(t, d), (t', x)] \<Rightarrow>
         if c = CMD_setSEXP \<and> t = DT_STRING \<and> 0 \<in> set d \<and> t' = DT_SEXP
         then Some (Set_sexp (takeWhile (\<lambda>b. b \<noteq> 0) d) x) else None
     | _ \<Rightarrow> None)"

section \<open>Reading what the client writes\<close>

lemma parse_packets_request:
  assumes "length payload < 2 ^ 32"
  shows "parse_packets (request c payload @ rest) = map_option ((#) (c, payload)) (parse_packets rest)"
  using assms unat_of_nat_u32 [of "length payload"]
  by (subst parse_packets.simps) (simp add: request_def Let_def dec_enc_phdr)

lemma par_len_word: "n < 2 ^ 24 \<Longrightarrow> unat (PAR_LEN (SET_PAR t (of_nat n))) = n"
  unfolding PAR_LEN_SET_PAR and_mask24 by (simp add: unsigned_take_bit_eq unsigned_of_nat take_bit_nat_eq_self)

lemma parse_params_word:
  assumes "n < 2 ^ 24" "t AND 255 = t" "\<not> IS_LARGE t"
  shows "parse_params (le32 (SET_PAR t (of_nat n)) @ d) =
    (if length d < n then None else map_option ((#) (t, take n d)) (parse_params (drop n d)))"
  using assms(2,3) par_len_word [OF assms(1), of t]
  by (subst parse_params.simps) (simp add: Let_def PAR_TYPE_SET_PAR u32_at_0)

lemma dt_facts: "DT_STRING AND 255 = DT_STRING" "\<not> IS_LARGE DT_STRING" "DT_SEXP AND 255 = DT_SEXP" "\<not> IS_LARGE DT_SEXP"
  by (simp_all add: dt_codes IS_LARGE_def XT_LARGE_def)

lemma parse_params_string:
  assumes "length s + 8 < 2 ^ 24"
  shows "\<exists>d. parse_params (dt_string_param s @ rest) = map_option ((#) (DT_STRING, d)) (parse_params rest) \<and>
    0 \<in> set d \<and> (no_nul s \<longrightarrow> takeWhile (\<lambda>b. b \<noteq> 0) d = s)"
proof -
  define n where "n = round8 (length s + 1)"
  have n: "length s < n" "n < 2 ^ 24" using round8_bounds [of "length s + 1"] assms by (simp_all add: n_def)
  let ?d = "s @ replicate (n - length s) 0"
  obtain k where k: "n - length s = Suc k" using n(1) by (metis Suc_diff_Suc)
  have "dt_string_param s @ rest = le32 (SET_PAR DT_STRING (of_nat n)) @ ?d @ rest" by (simp add: dt_string_param_def n_def Let_def)
  moreover have "length ?d = n" using n(1) by simp
  ultimately have "parse_params (dt_string_param s @ rest) = map_option ((#) (DT_STRING, ?d)) (parse_params rest)"
    using parse_params_word [OF n(2) dt_facts(1,2), of "?d @ rest"] by simp
  then show ?thesis by (intro exI [of _ ?d]) (simp add: k)
qed

text \<open>What the caller of the library asks for.\<close>

fun asked :: "api_call \<Rightarrow> cstr option" where
  "asked (Exists n) = Some (exists_text n)"
| "asked (Set_bool n b) = Some (set_bool_text n b)"
| "asked (Get_bool n) = Some n"
| "asked (Vec_len n) = Some (length_text n)"
| "asked (Assign n xs) = None"
| "asked (Fetch n) = Some n"
| "asked (Get_number n) = Some n"

fun readable :: "api_call \<Rightarrow> bool" where
  "readable (Assign n xs) \<longleftrightarrow> length n + 8 < 2 ^ 24 \<and> 8 * length xs + 8 < 2 ^ 24"
| "readable c \<longleftrightarrow> (case asked c of None \<Rightarrow> False | Some s \<Rightarrow> no_nul s \<and> length s + 8 < 2 ^ 24)"

lemma eval_request_read:
  assumes "no_nul s" "length s + 8 < 2 ^ 24"
  shows "\<exists>p. parse_packets (eval_request True s @ rest) = map_option ((#) p) (parse_packets rest) \<and> command_of p = Some (Eval s)"
proof -
  obtain d where d: "parse_params (dt_string_param s) = Some [(DT_STRING, d)]" "0 \<in> set d" "takeWhile (\<lambda>b. b \<noteq> 0) d = s"
    using parse_params_string [OF assms(2), of "[]"] assms(1) by (auto simp: parse_params.simps [of "[]"])
  have "length (dt_string_param s) < 2 ^ 32"
    using round8_bounds [of "length s + 1"] assms(2) by (simp add: length_dt_string_param)
  from parse_packets_request [OF this, of CMD_eval rest] d show ?thesis
    by (intro exI [of _ "(CMD_eval, dt_string_param s)"]) (simp add: eval_request_def)
qed

lemma assign_request_read:
  assumes "length n + 8 < 2 ^ 24" "8 * length xs + 8 < 2 ^ 24"
  shows "\<exists>p. parse_packets (request_of (Assign n xs) @ rest) = map_option ((#) p) (parse_packets rest) \<and> command_of p = None"
proof -
  let ?x = "sexp XT_ARRAY_DOUBLE (array le64 xs)"
  let ?second = "le32 (SET_PAR DT_SEXP (of_nat (8 * length xs + 8))) @ ?x"
  have x: "length ?x = 8 * length xs + 4" by (simp add: sexp_def double_elt.length_array)
  then have "parse_params ?second = None"
    using parse_params_word [OF assms(2) dt_facts(3,4), of ?x] by simp
  then have none: "parse_params (dt_string_param n @ ?second) = None"
    using parse_params_string [OF assms(1), of ?second] by auto
  have "length (dt_string_param n @ ?second) < 2 ^ 32"
    using round8_bounds [of "length n + 1"] assms x by (simp add: length_dt_string_param)
  from parse_packets_request [OF this, of CMD_setSEXP rest] none show ?thesis
    by (intro exI [of _ "(CMD_setSEXP, dt_string_param n @ ?second)"]) simp
qed

lemma request_read:
  assumes "readable c"
  shows "\<exists>p. parse_packets (request_of c @ rest) = map_option ((#) p) (parse_packets rest) \<and> command_of p = map_option Eval (asked c)"
proof (cases "asked c")
  case None
  with assms show ?thesis by (cases c) (use assign_request_read in auto)
next
  case (Some s)
  with assms have "no_nul s" "length s + 8 < 2 ^ 24" by (cases c; simp)+
  from eval_request_read [OF this, of rest] Some show ?thesis by (cases c) auto
qed

lemma requests_read:
  "list_all readable cs \<Longrightarrow>
   map_option (map command_of) (parse_packets (concat (map request_of cs))) = Some (map (\<lambda>c. map_option Eval (asked c)) cs)"
proof (induction cs)
  case Nil
  then show ?case by (simp add: parse_packets.simps)
next
  case (Cons c cs)
  then obtain p where "parse_packets (request_of c @ concat (map request_of cs)) = map_option ((#) p) (parse_packets (concat (map request_of cs)))"
    "command_of p = map_option Eval (asked c)"
    using request_read [of c "concat (map request_of cs)"] by auto
  with Cons show ?case by (auto simp: map_option_case split: option.splits)
qed

section \<open>Property\<close>

text \<open>C7. All that a session writes, read by a strict reader of the protocol: exactly one packet per call, in order, and
  each holds the command that the call asks for, except that an assignment does not parse.\<close>

theorem session_requests_decode:
  assumes "env_run cs r = Some (xs, r')" and "answers_calls sock cs xs q w"
    and "list_all call_fits cs" "list_all result_fits xs" "list_all readable cs"
  shows "\<exists>w' reqs. perform_all sock cs w = Done xs w' \<and> sent sock w' = sent sock w @ reqs \<and>
    map_option (map command_of) (parse_packets reqs) = Some (map (\<lambda>c. map_option Eval (asked c)) cs)"
proof -
  have wf: "wf_heap w" and sock: "0 < sock"
    and h: "whole sock w Map.empty [] (map Data (map2 reply_of cs xs) @ q) (sent sock w) w"
    using assms(2) by (simp_all add: faces_def)
  from runs_total [OF perform_all_rule [OF h sock assms(1,3,4)]]
  obtain w' where run: "perform_all sock cs w = Done xs w'"
    and "whole sock w Map.empty [] q (sent sock w @ concat (map request_of cs)) w'" by blast
  from served_whole [OF wf this(2)] have "sent sock w' = sent sock w @ concat (map request_of cs)" by (simp add: served_def)
  with run requests_read [OF assms(5)] show ?thesis by blast
qed

theorem session_requests_decode_witness:
  "\<exists>w'. perform_all 3 [Set_bool (lit ''x'') True, Assign (lit ''v'') [7]] (peer_world (map2 reply_of
      [Set_bool (lit ''x'') True, Assign (lit ''v'') [7]] [Status 0, Status 0])) = Done [Status 0, Status 0] w' \<and>
    map_option (map command_of) (parse_packets (sent 3 w')) = Some [Some (Eval (lit ''x <- TRUE '')), None]"
proof -
  let ?cs = "[Set_bool (lit ''x'') True, Assign (lit ''v'') [7]]" and ?xs = "[Status 0, Status 0]"
  have "env_run ?cs Map.empty = Some (?xs, [lit ''x'' \<mapsto> Lgl True, lit ''v'' \<mapsto> Dbl [7]])" by (simp add: lit_def)
  moreover have "list_all call_fits ?cs" "list_all result_fits ?xs" "list_all readable ?cs"
    by (simp_all add: short_name_def lit_def set_bool_text_def)
  ultimately show ?thesis
    using session_requests_decode [of ?cs Map.empty ?xs _ 3 "[Eof]", OF _ answers_peer [of ?cs ?xs]]
    by (auto simp: set_bool_text_def lit_def)
qed

end
