(* ===== verification/Closed_Loop.thy ===== *)
theory Closed_Loop
  imports Server_View
begin

text \<open>
  Client and server together: a server that reads the bytes the client has sent, keeps the variables they assign and
  answers from them. The packets are read by the strict reader of Server_View, an assignment by a lenient one that
  does not look at the parameter length \<open>set_vec\<close> gets wrong. What R makes of a text is a parameter \<open>R\<close>; \<open>R_means\<close>
  lists the facts about R that the client relies on. The property says that a client that is fed with the answers to
  its own requests gets the results of the environment.
\<close>

section \<open>The server\<close>

text \<open>The values of R the client asks for, and their responses.\<close>

datatype r_value = R_lgl bool | R_int int | R_dbl "64 word list"

fun value_of :: "rval \<Rightarrow> r_value" where
  "value_of (Lgl b) = R_lgl b"
| "value_of (Dbl xs) = R_dbl xs"

fun value_length :: "rval \<Rightarrow> int" where
  "value_length (Lgl b) = 1"
| "value_length (Dbl xs) = int (length xs)"

fun value_reply :: "r_value \<Rightarrow> byte list" where
  "value_reply (R_lgl b) = sexp_reply XT_ARRAY_BOOL (bool_array [if b then 1 else 0])"
| "value_reply (R_int k) = sexp_reply XT_ARRAY_INT (int_array [word_of_int k])"
| "value_reply (R_dbl xs) = sexp_reply XT_ARRAY_DOUBLE (array le64 xs)"

definition ok_reply :: "byte list" where
  "ok_reply = enc_phdr \<lparr>cmd = RESP_OK, len = 0, msg_id = 0, res = 0\<rparr>"

text \<open>The evaluation of a text in the global environment of R: its value and the environment after it.\<close>

type_synonym r_eval = "cstr \<Rightarrow> renv \<Rightarrow> (r_value \<times> renv) option"

text \<open>What R makes of the four kinds of text about the variable \<open>n\<close>: \<open>exists("n")\<close>, an assignment of \<open>TRUE\<close> or
  \<open>FALSE\<close>, whose value is what is assigned, the variable itself, and its \<open>length\<close>.\<close>

definition R_means :: "r_eval \<Rightarrow> cstr \<Rightarrow> bool" where
  "R_means R n \<longleftrightarrow> (\<forall>r.
     R (exists_text n) r = Some (R_lgl (r n \<noteq> None), r) \<and>
     (\<forall>b. R (set_bool_text n b) r = Some (R_lgl b, r(n \<mapsto> Lgl b))) \<and>
     (\<forall>v. r n = Some v \<longrightarrow> R n r = Some (value_of v, r) \<and> R (length_text n) r = Some (R_int (value_length v), r)))"

text \<open>An assignment of doubles: the name is the string parameter, the values are the content of the expression behind
  the second parameter word.\<close>

definition read_assignment :: "byte list \<Rightarrow> (cstr \<times> 64 word list) option" where
  "read_assignment payload =
     (let k = unat (PAR_LEN (u32_at payload 0)); name = take k (drop 4 payload); second = drop (4 + k) payload;
          m = unat (PAR_LEN (u32_at second 1))
      in if length payload < 4 \<or> PAR_TYPE (u32_at payload 0) \<noteq> DT_STRING \<or> 0 \<notin> set name \<or>
            length second \<noteq> 8 + m \<or> PAR_TYPE (u32_at second 0) \<noteq> DT_SEXP \<or> PAR_TYPE (u32_at second 1) \<noteq> XT_ARRAY_DOUBLE
         then None
         else Some (takeWhile (\<lambda>b. b \<noteq> 0) name, elements 8 le_dec (drop 8 second)))"

text \<open>One packet, and all that has come in: the responses and the variables after them.\<close>

definition serve_packet :: "r_eval \<Rightarrow> renv \<Rightarrow> u32 \<times> byte list \<Rightarrow> (byte list \<times> renv) option" where
  "serve_packet R r p = (case command_of p of
       Some (Eval s) \<Rightarrow> map_option (\<lambda>(v, r'). (value_reply v, r')) (R s r)
     | Some (Set_sexp n x) \<Rightarrow> None
     | None \<Rightarrow>
         if fst p = CMD_setSEXP
         then map_option (\<lambda>(n, xs). (ok_reply, r(n \<mapsto> Dbl xs))) (read_assignment (snd p))
         else None)"

fun serve_packets :: "r_eval \<Rightarrow> renv \<Rightarrow> (u32 \<times> byte list) list \<Rightarrow> (byte list list \<times> renv) option" where
  "serve_packets R r [] = Some ([], r)"
| "serve_packets R r (p # ps) = (case serve_packet R r p of
       None \<Rightarrow> None
     | Some (a, r1) \<Rightarrow> map_option (\<lambda>(as, r2). (a # as, r2)) (serve_packets R r1 ps))"

definition serve_bytes :: "r_eval \<Rightarrow> renv \<Rightarrow> byte list \<Rightarrow> (byte list list \<times> renv) option" where
  "serve_bytes R r bs = Option.bind (parse_packets bs) (serve_packets R r)"

section \<open>What it makes of a request\<close>

fun name_of :: "api_call \<Rightarrow> cstr" where
  "name_of (Exists n) = n"
| "name_of (Set_bool n b) = n"
| "name_of (Get_bool n) = n"
| "name_of (Vec_len n) = n"
| "name_of (Assign n xs) = n"
| "name_of (Fetch n) = n"
| "name_of (Get_number n) = n"

text \<open>The name parameter of an assignment, whatever follows it.\<close>

lemma string_param_at:
  assumes "length s + 8 < 2 ^ 24" and "no_nul s"
  defines "k \<equiv> round8 (length s + 1)"
  shows "u32_at (dt_string_param s @ rest) 0 = SET_PAR DT_STRING (of_nat k)" and "drop (4 + k) (dt_string_param s @ rest) = rest"
    and "unat (PAR_LEN (SET_PAR DT_STRING (of_nat k))) = k" and "4 \<le> length (dt_string_param s @ rest)"
    and "0 \<in> set (take k (drop 4 (dt_string_param s @ rest)))"
    and "takeWhile (\<lambda>b. b \<noteq> 0) (take k (drop 4 (dt_string_param s @ rest))) = s"
proof -
  have k: "length s < k" "k < 2 ^ 24" using round8_bounds [of "length s + 1"] assms(1) by (simp_all add: k_def)
  let ?d = "s @ replicate (k - length s) 0"
  have p: "dt_string_param s @ rest = le32 (SET_PAR DT_STRING (of_nat k)) @ ?d @ rest" by (simp add: dt_string_param_def k_def Let_def)
  have l: "length ?d = k" using k(1) by simp
  obtain j where j: "k - length s = Suc j" using k(1) by (metis Suc_diff_Suc)
  have d: "take k (drop 4 (dt_string_param s @ rest)) = ?d" unfolding p using l by simp
  show "u32_at (dt_string_param s @ rest) 0 = SET_PAR DT_STRING (of_nat k)" unfolding p by (simp add: u32_at_0)
  show "drop (4 + k) (dt_string_param s @ rest) = rest" unfolding p using l by simp
  show "unat (PAR_LEN (SET_PAR DT_STRING (of_nat k))) = k"
    by (rule par_len_word [OF k(2)])
  show "4 \<le> length (dt_string_param s @ rest)" unfolding p by simp
  show "0 \<in> set (take k (drop 4 (dt_string_param s @ rest)))" unfolding d by (simp add: j)
  show "takeWhile (\<lambda>b. b \<noteq> 0) (take k (drop 4 (dt_string_param s @ rest))) = s" unfolding d using assms(2) by (simp add: j)
qed

lemma read_assignment_request:
  assumes "length n + 8 < 2 ^ 24" and "no_nul n" and "8 * length xs + 8 < 2 ^ 24"
  shows "read_assignment (dt_string_param n @ le32 (SET_PAR DT_SEXP l) @ sexp XT_ARRAY_DOUBLE (array le64 xs)) = Some (n, xs)"
proof -
  let ?m = "8 * length xs"
  let ?w = "SET_PAR XT_ARRAY_DOUBLE (of_nat ?m)"
  have m: "unat (PAR_LEN ?w) = ?m" by (rule par_len_word) (use assms(3) in simp)
  have t: "PAR_TYPE ?w = XT_ARRAY_DOUBLE" "PAR_TYPE (SET_PAR DT_SEXP l) = DT_SEXP" "PAR_TYPE (SET_PAR DT_STRING l') = DT_STRING" for l'
    by (simp_all add: PAR_TYPE_SET_PAR dt_codes XT_ARRAY_DOUBLE_def)
  define second where "second = le32 (SET_PAR DT_SEXP l) @ sexp XT_ARRAY_DOUBLE (array le64 xs)"
  have x: "second = le32 (SET_PAR DT_SEXP l) @ le32 ?w @ array le64 xs" by (simp add: second_def sexp_def double_elt.length_array)
  have "u32_at second 0 = SET_PAR DT_SEXP l" "u32_at second 1 = ?w" "drop 8 second = array le64 xs" "length second = 8 + ?m"
    by (simp_all add: x layout_simps double_elt.length_array)
  then show ?thesis
    unfolding read_assignment_def Let_def second_def [symmetric] string_param_at [OF assms(1,2)]
    using string_param_at(4-6) [OF assms(1,2), of second] m t by (simp only: double_elt.elements_array) simp
qed

lemma serve_request:
  assumes "readable c" and "no_nul (name_of c)" and "R_means R (name_of c)" and "env_step c r = Some (x, r')"
  shows "\<exists>p. parse_packets (request_of c @ rest) = map_option ((#) p) (parse_packets rest) \<and>
    serve_packet R r p = Some (reply_of c x, r')"
proof (cases "asked c")
  case None
  then obtain n xs where c: "c = Assign n xs" by (cases c) simp_all
  let ?p = "dt_string_param n @ le32 (SET_PAR DT_SEXP (of_nat (8 * length xs + 8))) @ sexp XT_ARRAY_DOUBLE (array le64 xs)"
  have l: "length n + 8 < 2 ^ 24" "8 * length xs + 8 < 2 ^ 24" "no_nul n" using assms(1,2) c by simp_all
  have x: "x = Status 0" "r' = r(n \<mapsto> Dbl xs)" using assms(4) c by (simp_all split: if_splits)
  have "length ?p < 2 ^ 32"
    using round8_bounds [of "length n + 1"] l by (simp add: length_dt_string_param sexp_def double_elt.length_array)
  from parse_packets_request [OF this, of CMD_setSEXP rest]
  have 1: "parse_packets (request_of c @ rest) = map_option ((#) (CMD_setSEXP, ?p)) (parse_packets rest)" using c by simp
  obtain p' where "parse_packets (request_of c @ []) = map_option ((#) p') (parse_packets [])" "command_of p' = None"
    using request_read [OF assms(1), of "[]"] None by auto
  moreover have "parse_packets [] = Some []" by (simp add: parse_packets.simps)
  ultimately have "command_of (CMD_setSEXP, ?p) = None"
    using parse_packets_request [OF \<open>length ?p < 2 ^ 32\<close>, of CMD_setSEXP "[]"] c by simp
  then have "serve_packet R r (CMD_setSEXP, ?p) = Some (reply_of c x, r')"
    using read_assignment_request [OF l(1,3,2)] c x by (simp add: serve_packet_def ok_reply_def del: command_of.simps)
  with 1 show ?thesis by blast
next
  case (Some s)
  obtain p where p: "parse_packets (request_of c @ rest) = map_option ((#) p) (parse_packets rest)" "command_of p = Some (Eval s)"
    using request_read [OF assms(1), of rest] Some by auto
  have "map_option (\<lambda>(v, r'). (value_reply v, r')) (R s r) = Some (reply_of c x, r')"
    using assms(3,4) Some unfolding R_means_def
    by (cases c) (auto simp: lgl_reply_def split: option.splits rval.splits list.splits)
  with p(2) have "serve_packet R r p = Some (reply_of c x, r')" by (simp add: serve_packet_def)
  with p(1) show ?thesis by blast
qed

lemma serve_requests:
  "env_run cs r = Some (xs, r') \<Longrightarrow> list_all (\<lambda>c. readable c \<and> no_nul (name_of c) \<and> R_means R (name_of c)) cs \<Longrightarrow>
   serve_bytes R r (concat (map request_of cs)) = Some (map2 reply_of cs xs, r')"
proof (induction cs arbitrary: r xs)
  case Nil
  then show ?case by (simp add: serve_bytes_def parse_packets.simps)
next
  case (Cons c cs)
  then obtain x r1 ys where s: "env_step c r = Some (x, r1)" "env_run cs r1 = Some (ys, r')" "xs = x # ys"
    by (auto split: option.splits prod.splits)
  obtain p where p: "parse_packets (request_of c @ concat (map request_of cs)) = map_option ((#) p) (parse_packets (concat (map request_of cs)))"
    "serve_packet R r p = Some (reply_of c x, r1)"
    using serve_request [OF _ _ _ s(1), of R "concat (map request_of cs)"] Cons.prems(2) by auto
  with Cons.IH [OF s(2)] Cons.prems(2) s(3) show ?case
    by (auto simp: serve_bytes_def bind_eq_Some_conv)
qed

section \<open>Property\<close>

text \<open>C4. Client and server in a closed loop: there are responses such that the client, fed with them, sends requests for
  which a server that reads just the bytes sent computes exactly these responses; the results of the calls are then
  those of the environment, and the server ends with its variables. What \<open>set_vec\<close> assigns is what the server stores,
  what \<open>get_vec\<close> fetches is what it stored.\<close>

theorem session_closes_loop:
  assumes "env_run cs r = Some (xs, r')" and "list_all call_fits cs" and "list_all result_fits xs"
    and "list_all (\<lambda>c. readable c \<and> no_nul (name_of c) \<and> R_means R (name_of c)) cs"
    and "0 < sock" and "wf_heap w" and "mallocs w = []" and "socks w sock = Some (Connected c)" and "sndq c = []"
  shows "\<exists>replies reqs w'. perform_all sock cs (put_conn sock (c\<lparr>inq := map Data replies @ inq c\<rparr>) w) = Done xs w' \<and>
    sent sock w' = outb c @ reqs \<and> serve_bytes R r reqs = Some (replies, r') \<and> heap w' = heap w \<and> pending sock w' = Some (avail (inq c))"
proof -
  let ?replies = "map2 reply_of cs xs" and ?reqs = "concat (map request_of cs)"
  let ?w = "put_conn sock (c\<lparr>inq := map Data ?replies @ inq c\<rparr>) w"
  have wf: "wf_heap ?w" using assms(6) by (simp add: wf_heap_def)
  have h: "whole sock ?w Map.empty [] (map Data ?replies @ inq c) (outb c) ?w"
    using wf assms(7,9) by (auto intro!: wholeI since_start)
  from runs_total [OF perform_all_rule [OF h assms(5,1-3)]]
  obtain w' where run: "perform_all sock cs ?w = Done xs w'" and w': "whole sock ?w Map.empty [] (inq c) (outb c @ ?reqs) w'" by blast
  have "served sock ?reqs (avail (inq c)) ?w w'"
    using served_whole [OF wf, of sock "[]" "inq c" ?reqs w'] w' by (simp add: sent_def)
  then have "sent sock w' = outb c @ ?reqs" "heap w' = heap w" "pending sock w' = Some (avail (inq c))"
    by (simp_all add: served_def sent_def)
  with run serve_requests [OF assms(1,4)] show ?thesis by blast
qed

text \<open>An evaluator that knows the texts about some variables.\<close>

fun knows :: "cstr list \<Rightarrow> r_eval" where
  "knows [] s r = None"
| "knows (n # ns) s r =
     (if s = exists_text n then Some (R_lgl (r n \<noteq> None), r)
      else if s = set_bool_text n True then Some (R_lgl True, r(n \<mapsto> Lgl True))
      else if s = set_bool_text n False then Some (R_lgl False, r(n \<mapsto> Lgl False))
      else if s = length_text n then map_option (\<lambda>v. (R_int (value_length v), r)) (r n)
      else if s = n then map_option (\<lambda>v. (value_of v, r)) (r n)
      else knows ns s r)"

theorem session_closes_loop_witness:
  "\<exists>replies reqs w'.
     perform_all 3 [Assign (lit ''v'') [7, 8], Set_bool (lit ''x'') True, Vec_len (lit ''v''), Get_bool (lit ''x''), Fetch (lit ''v'')] (peer_world replies) =
       Done [Status 0, Status 0, Count 0 (Some 2), Flag 0 (Some True), Doubles 0 [7, 8]] w' \<and>
     sent 3 w' = reqs \<and>
     serve_bytes (knows [lit ''v'', lit ''x'']) Map.empty reqs = Some (replies, [lit ''v'' \<mapsto> Dbl [7, 8], lit ''x'' \<mapsto> Lgl True])"
proof -
  let ?cs = "[Assign (lit ''v'') [7, 8], Set_bool (lit ''x'') True, Vec_len (lit ''v''), Get_bool (lit ''x''), Fetch (lit ''v'')]"
  let ?xs = "[Status 0, Status 0, Count 0 (Some 2), Flag 0 (Some True), Doubles 0 [7, 8]]"
  have env: "env_run ?cs Map.empty = Some (?xs, [lit ''v'' \<mapsto> Dbl [7, 8], lit ''x'' \<mapsto> Lgl True])"
    by (simp add: lit_def)
  have fits: "list_all call_fits ?cs" "list_all result_fits ?xs" by (simp_all add: short_name_def lit_def)
  have R: "R_means (knows [lit ''v'', lit ''x'']) (lit ''v'')" "R_means (knows [lit ''v'', lit ''x'']) (lit ''x'')"
    by (simp_all add: R_means_def lit_def exists_text_def set_bool_text_def length_text_def)
  have ok: "list_all (\<lambda>c. readable c \<and> no_nul (name_of c) \<and> R_means (knows [lit ''v'', lit ''x'']) (name_of c)) ?cs"
    using R by (simp add: lit_def exists_text_def set_bool_text_def length_text_def no_nul_def)
  have w: "mallocs (peer_world []) = []" "socks (peer_world []) 3 = Some (Connected (peer_conn [] [Eof]))" "sndq (peer_conn [] [Eof]) = []"
    by (simp_all add: peer_world_def peer_conn_def)
  have p: "put_conn 3 ((peer_conn [] [Eof])\<lparr>inq := map Data rs @ inq (peer_conn [] [Eof])\<rparr>) (peer_world []) = peer_world rs" for rs
    by (simp add: put_conn_def peer_world_def peer_conn_def)
  have o: "outb (peer_conn [] [Eof]) = []" by (simp add: peer_conn_def)
  show ?thesis
    using session_closes_loop [OF env fits ok _ _ w, unfolded p o] by auto
qed

end
