(* ===== verification/Mk_Df_Str.thy ===== *)
theory Mk_Df_Str
  imports Machine
begin

text \<open>
  \<open>mk_df_str\<close> of src/mk_df_str.c: the R command that puts named columns into a data frame. The file is no
  part of any program: its \<open>go_BYE\<close> jumps to a label the function does not have. What stands there is a parameter
  \<open>bye\<close> of the model, so the theorems about it hold for every way of supplying the label.
\<close>

section \<open>The function\<close>

text \<open>\<open>strcat\<close> into a block, and the element \<open>i\<close> of an array of pointers to strings.\<close>

definition sys_strcat :: "ptr \<Rightarrow> cstr \<Rightarrow> world \<Rightarrow> (unit, world) outcome" where
  "sys_strcat p s w = obind (load_str p w) (\<lambda>t. store p (length t) (s @ [0]))"

definition str_elem :: "cstr option list \<Rightarrow> nat \<Rightarrow> (cstr option, 'r, 'l, world) cmd" where
  "str_elem xs i = (if i < length xs then done_with (xs ! i) else fault Out_of_bounds)"

text \<open>The first loop, \<open>k\<close> rounds before its end: \<open>len\<close> is an \<open>int\<close>, the sum a \<open>size_t\<close>.\<close>

fun df_measure :: "cstr option list \<Rightarrow> cstr option list \<Rightarrow> nat \<Rightarrow> nat \<Rightarrow> int \<Rightarrow> (int, 'r, 'l, world) cmd" where
  "df_measure col_names col_types 0 i len = done_with len"
| "df_measure col_names col_types (Suc k) i len =
     chain (str_elem col_types i) (\<lambda>t.
     case t of None \<Rightarrow> go_BYE (-1)
     | Some t \<Rightarrow>
         if t = lit ''XX'' then df_measure col_names col_types k (Suc i) len
         else chain (str_elem col_names i) (\<lambda>s.
           case s of None \<Rightarrow> go_BYE (-1)
           | Some s \<Rightarrow>
               df_measure col_names col_types k (Suc i) (to_int (size_of_int len + (of_nat (length s) + 4)))))"

text \<open>The second loop.\<close>

fun df_fill :: "cstr option list \<Rightarrow> ptr \<Rightarrow> nat \<Rightarrow> nat \<Rightarrow> (unit, 'r, 'l, world) cmd" where
  "df_fill col_names buf 0 i = done_with ()"
| "df_fill col_names buf (Suc k) i =
     chain (if i > 0 then call (sys_strcat buf (lit '', '')) else done_with ()) (\<lambda>_.
     chain (str_elem col_names i) (\<lambda>s.
     case s of None \<Rightarrow> fault Null_deref
     | Some s \<Rightarrow>
         chain (call (sys_strcat buf s)) (\<lambda>_.
         df_fill col_names buf k (Suc i))))"

definition df_head :: cstr where
  "df_head = lit ''rsdf <- data.frame(''"

definition mk_df_str ::
    "(int \<Rightarrow> world \<Rightarrow> (ptr, world) outcome) \<Rightarrow> cstr option list option \<Rightarrow> cstr option list option \<Rightarrow> int
      \<Rightarrow> world \<Rightarrow> (ptr, world) outcome"
where
  "mk_df_str bye col_names col_types ncols = proc ()
     (case col_names of None \<Rightarrow> go_BYE (-1)
      | Some names \<Rightarrow>
     case col_types of None \<Rightarrow> go_BYE (-1)
      | Some types \<Rightarrow>
        chain (bye_when (ncols < 1) (-1)) (\<lambda>_.
        chain (df_measure names types (nat ncols) 0 (int (length df_head) + 32)) (\<lambda>len.
        chain (call (sys_malloc (size_of_int len))) (\<lambda>buf.
        chain (call (store buf 0 (replicate (unat (size_of_int len)) 0))) (\<lambda>_.
        chain (call (store buf 0 (df_head @ [0]))) (\<lambda>_.
        chain (df_fill names buf (nat ncols) 0) (\<lambda>_.
        chain (call (sys_strcat buf (lit '')''))) (\<lambda>_.
        return_with buf))))))))
     (\<lambda>st _. bye st)"

section \<open>What it is meant to build\<close>

text \<open>The names with commas between them, the text, and the size that the first loop computes.\<close>

fun commas :: "cstr list \<Rightarrow> cstr" where
  "commas [] = []"
| "commas [s] = s"
| "commas (s # t # ss) = s @ lit '', '' @ commas (t # ss)"

definition df_text :: "cstr list \<Rightarrow> cstr" where
  "df_text ns = df_head @ commas ns @ lit '')''"

definition df_size :: "cstr list \<Rightarrow> cstr list \<Rightarrow> nat" where
  "df_size ns ts = 51 + sum_list (map2 (\<lambda>s t. if t = lit ''XX'' then 0 else length s + 4) ns ts)"


fun df_tail :: "nat \<Rightarrow> cstr list \<Rightarrow> cstr" where
  "df_tail i [] = []"
| "df_tail i (s # ss) = (if i > 0 then lit '', '' else []) @ s @ df_tail (Suc i) ss"

lemma df_tail_commas: "df_tail i ns = (if i > 0 \<and> ns \<noteq> [] then lit '', '' else []) @ commas ns"
  by (induction ns arbitrary: i rule: commas.induct) auto

lemma no_nul_commas: "list_all no_nul ns \<Longrightarrow> no_nul (commas ns)"
  by (induction ns rule: commas.induct) auto

lemma length_df_head [simp]: "length df_head = 19"
  by (simp add: df_head_def)

section \<open>The loops\<close>

lemma drop_head: "drop i xs = y # ys \<Longrightarrow> i < length xs \<and> xs ! i = y \<and> drop (Suc i) xs = ys"
  by (metis drop_eq_Nil Cons_nth_drop_Suc list.distinct(1) list.inject not_le)

lemma int_length_sum:
  "a + (l + 4) < 2 ^ 31 \<Longrightarrow> to_int (size_of_int (int a) + (of_nat l + 4)) = int (a + (l + 4))"
  using to_int_of_nat [where 'a = 64, of "a + (l + 4)"] by (simp add: size_of_int_def)

lemma df_measure_run:
  assumes "drop i xs = map Some ns" "drop i ys = map Some ts" "length ts = length ns"
    and "a + sum_list (map2 (\<lambda>s t. if t = lit ''XX'' then 0 else length s + 4) ns ts) < 2 ^ 31"
  shows "df_measure xs ys (length ns) i (int a) st =
    Val (int (a + sum_list (map2 (\<lambda>s t. if t = lit ''XX'' then 0 else length s + 4) ns ts))) st"
  using assms
proof (induction ns arbitrary: ts i a)
  case (Cons n ns)
  then obtain t ts' where ts: "ts = t # ts'" "length ts' = length ns" by (cases ts) auto
  have e: "i < length xs" "xs ! i = Some n" "drop (Suc i) xs = map Some ns"
    "i < length ys" "ys ! i = Some t" "drop (Suc i) ys = map Some ts'"
    using Cons.prems(1,2) ts by (auto dest: drop_head)
  show ?case
  proof (cases "t = lit ''XX''")
    case True
    then show ?thesis
      using Cons.IH [OF e(3,6) ts(2), of a] Cons.prems(4) e by (simp add: ts exec_chain str_elem_def)
  next
    case False
    then have s: "a + (length n + 4) + sum_list (map2 (\<lambda>s t. if t = lit ''XX'' then 0 else length s + 4) ns ts') < 2 ^ 31"
      using Cons.prems(4) by (simp add: ts)
    then show ?thesis
      using Cons.IH [OF e(3,6) ts(2) s] int_length_sum [of a "length n"] False e
      by (simp add: ts exec_chain str_elem_def add.assoc)
  qed
qed simp

section \<open>The text\<close>

lemma strcat_zeros:
  assumes "heap w i = Some (t @ replicate m 0)" "no_nul t" "0 < m"
  shows "sys_strcat (Ptr i) s w =
    (if length s < m then Done () (w\<lparr>heap := (heap w)(i \<mapsto> t @ s @ replicate (m - length s) 0)\<rparr>) else Undef Out_of_bounds)"
proof -
  obtain m' where m: "m = Suc m'" using assms(3) by (cases m) auto
  have "load_str (Ptr i) w = Done t w"
    using assms(1,2) no_nul_takeWhile [of t "replicate m' 0"] by (simp add: load_str_def m)
  moreover have "drop (length t + length (s @ [0])) (t @ replicate m 0) = replicate (m - Suc (length s)) 0" by simp
  moreover have "replicate (m - length s) (0 :: byte) = 0 # replicate (m - Suc (length s)) 0" if "length s < m"
    using that by (metis Suc_diff_Suc replicate_Suc)
  ultimately show ?thesis using assms(1) by (simp add: sys_strcat_def store_def)
qed

lemma df_fill_run:
  assumes "drop i xs = map Some ns" "heap w b = Some (t @ replicate m 0)" "list_all no_nul ns" "no_nul t" "0 < m"
  shows "(df_fill xs (Ptr b) (length ns) i :: (unit, 'r, 'l, world) cmd) (l, w) =
    (if length (df_tail i ns) < m
     then Val () (l, w\<lparr>heap := (heap w)(b \<mapsto> t @ df_tail i ns @ replicate (m - length (df_tail i ns)) 0)\<rparr>)
     else Fault Out_of_bounds)"
  using assms
proof (induction ns arbitrary: i w t m)
  case Nil
  then show ?case by (simp add: fun_upd_idem)
next
  case (Cons n ns)
  have e: "i < length xs" "xs ! i = Some n" "drop (Suc i) xs = map Some ns"
    using Cons.prems(1) by (auto dest: drop_head)
  have n: "no_nul n" "list_all no_nul ns" using Cons.prems(3) by simp_all
  let ?sep = "if i > 0 then lit '', '' else []"
  let ?w1 = "w\<lparr>heap := (heap w)(b \<mapsto> t @ ?sep @ replicate (m - length ?sep) 0)\<rparr>"
  let ?t2 = "t @ ?sep @ n" and ?m2 = "m - length ?sep - length n"
  let ?w2 = "w\<lparr>heap := (heap w)(b \<mapsto> ?t2 @ replicate ?m2 0)\<rparr>"
  have 1: "(if i > 0 then call (sys_strcat (Ptr b) (lit '', '')) else done_with () :: (unit, 'r, 'l, world) cmd) (l, w) =
    (if length ?sep < m then Val () (l, ?w1) else Fault Out_of_bounds)"
    using Cons.prems by (auto simp: strcat_zeros fun_upd_idem)
  have 2: "(call (sys_strcat (Ptr b) n) :: (unit, 'r, 'l, world) cmd) (l, ?w1) = (if length n < m - length ?sep then Val () (l, ?w2) else Fault Out_of_bounds)"
    if "length ?sep < m"
    using strcat_zeros [of ?w1 b "t @ ?sep" "m - length ?sep" n] Cons.prems(4) that by simp
  have 3: "(df_fill xs (Ptr b) (length ns) (Suc i) :: (unit, 'r, 'l, world) cmd) (l, ?w2) = (if length (df_tail (Suc i) ns) < ?m2
     then Val () (l, ?w2\<lparr>heap := (heap ?w2)(b \<mapsto> ?t2 @ df_tail (Suc i) ns @ replicate (?m2 - length (df_tail (Suc i) ns)) 0)\<rparr>)
     else Fault Out_of_bounds)" if "0 < ?m2"
    by (rule Cons.IH) (use e n Cons.prems(4) that in simp_all)
  have d: "length (df_tail i (n # ns)) = length ?sep + length n + length (df_tail (Suc i) ns)" by simp
  show ?case
  proof (cases "length ?sep + length n < m")
    case True
    then have lt: "length ?sep < m" "length n < m - length ?sep" "0 < ?m2" by linarith+
    have a: "(df_fill xs (Ptr b) (length (n # ns)) i :: (unit, 'r, 'l, world) cmd) (l, w) = df_fill xs (Ptr b) (length ns) (Suc i) (l, ?w2)"
      using 1 2 lt e by (simp add: exec_chain str_elem_def del: exec_call)
    have c: "length (df_tail (Suc i) ns) < ?m2 \<longleftrightarrow> length (df_tail i (n # ns)) < m" using d lt by linarith
    have st: "?w2\<lparr>heap := (heap ?w2)(b \<mapsto> ?t2 @ df_tail (Suc i) ns @ replicate (?m2 - length (df_tail (Suc i) ns)) 0)\<rparr> =
      w\<lparr>heap := (heap w)(b \<mapsto> t @ df_tail i (n # ns) @ replicate (m - length (df_tail i (n # ns))) 0)\<rparr>"
      unfolding d by (simp add: diff_diff_left)
    show ?thesis by (simp only: a 3 [OF lt(3)] st c)
  next
    case False
    then have "(df_fill xs (Ptr b) (length (n # ns)) i :: (unit, 'r, 'l, world) cmd) (l, w) = Fault Out_of_bounds"
    proof (cases "length ?sep < m")
      case sep: True
      with False have "\<not> length n < m - length ?sep" by linarith
      with 1 2 e sep show ?thesis by (simp add: exec_chain str_elem_def del: exec_call)
    next
      case sep: False
      with 1 show ?thesis by (simp add: exec_chain del: exec_call)
    qed
    moreover have "\<not> length (df_tail i (n # ns)) < m" using False d by linarith
    ultimately show ?thesis by (simp only: if_False)
  qed
qed

section \<open>Verdict\<close>

lemma size_of_size: "n < 2 ^ 31 \<Longrightarrow> unat (size_of_int (int n)) = n"
  using unat_of_nat_size [of n] by (simp add: size_of_int_def)

lemma mk_df_str_run:
  assumes "ns \<noteq> []" "length ts = length ns" "list_all no_nul ns" "df_size ns ts < 2 ^ 31" "mallocs w = []"
  shows "mk_df_str bye (Some (map Some ns)) (Some (map Some ts)) (int (length ns)) w =
    (if length (df_text ns) < df_size ns ts
     then Done (Ptr (next_id w)) (w\<lparr>next_id := Suc (next_id w),
       heap := (heap w)(next_id w \<mapsto> df_text ns @ replicate (df_size ns ts - length (df_text ns)) 0)\<rparr>)
     else Undef Out_of_bounds)"
proof -
  let ?n = "df_size ns ts" and ?b = "next_id w"
  have n51: "51 \<le> ?n" by (simp add: df_size_def)
  have u: "unat (size_of_int (int ?n)) = ?n" by (rule size_of_size [OF assms(4)])
  have m: "(df_measure (map Some ns) (map Some ts) (length ns) 0 51 :: (int, ptr, unit, world) cmd) ((), w) = Val (int ?n) ((), w)"
    using df_measure_run [of 0 "map Some ns" ns "map Some ts" ts 51 "((), w)"] assms(2,4) by (simp add: df_size_def df_head_def)
  let ?w = "\<lambda>d. w\<lparr>mallocs := [], next_id := Suc ?b, heap := (heap w)(?b \<mapsto> d)\<rparr>"
  let ?m = "?n - 19"
  have al: "sys_malloc (size_of_int (int ?n)) w = Done (Ptr ?b) (?w (map (junk w ?b) [0..<?n]))"
    using assms(4,5) by (simp add: sys_malloc_def u ptrdiff_max_def)
  have z: "store (Ptr ?b) 0 (replicate (unat (size_of_int (int ?n))) 0) (?w (map (junk w ?b) [0..<?n])) = Done () (?w (replicate ?n 0))"
    by (simp add: store_def u)
  have "drop 20 (replicate ?n (0 :: byte)) = replicate (?n - 20) 0" "replicate ?m (0 :: byte) = 0 # replicate (?n - 20) 0"
    using n51 by (simp_all add: Suc_diff_Suc flip: replicate_Suc)
  then have h: "store (Ptr ?b) 0 (df_head @ [0]) (?w (replicate ?n 0)) = Done () (?w (df_head @ replicate ?m 0))"
    using n51 by (simp add: store_def)
  let ?c = "commas ns"
  have nul: "no_nul df_head" "no_nul (df_head @ ?c)"
    using assms(3) by (simp_all add: df_head_def no_nul_commas)
  have fill: "(df_fill (map Some ns) (Ptr ?b) (length ns) 0 :: (unit, ptr, unit, world) cmd) ((), ?w (df_head @ replicate ?m 0)) =
    (if length ?c < ?m then Val () ((), ?w (df_head @ ?c @ replicate (?m - length ?c) 0)) else Fault Out_of_bounds)"
    using df_fill_run [of 0 "map Some ns" ns "?w (df_head @ replicate ?m 0)" ?b df_head ?m "()"] assms(3) nul n51
    by (cases "length ?c < ?m") (simp_all add: df_tail_commas)
  have last: "sys_strcat (Ptr ?b) (lit '')'') (?w (df_head @ ?c @ replicate (?m - length ?c) 0)) =
    (if 1 < ?m - length ?c then Done () (?w (df_text ns @ replicate (?m - length ?c - 1) 0)) else Undef Out_of_bounds)"
    if "length ?c < ?m"
    using strcat_zeros [of "?w (df_head @ ?c @ replicate (?m - length ?c) 0)" ?b "df_head @ ?c" "?m - length ?c" "lit '')''"] nul that
    by (simp add: df_text_def)
  have w': "w\<lparr>mallocs := [], next_id := x, heap := y\<rparr> = w\<lparr>next_id := x, heap := y\<rparr>" for x y
    using assms(5) by (cases w) simp
  have t: "length (df_text ns) < ?n \<longleftrightarrow> length ?c < ?m \<and> 1 < ?m - length ?c"
    "?n - length (df_text ns) = ?m - length ?c - 1"
    by (auto simp: df_text_def)
  have pos: "\<not> int (length ns) < 1" using assms(1) by (cases ns) simp_all
  have run: "mk_df_str bye (Some (map Some ns)) (Some (map Some ts)) (int (length ns)) w =
    (if length ?c < ?m \<and> 1 < ?m - length ?c then Done (Ptr ?b) (?w (df_text ns @ replicate (?m - length ?c - 1) 0)) else Undef Out_of_bounds)"
    unfolding mk_df_str_def proc_def using pos
    by (cases "length ?c < ?m") (simp_all add: exec_chain m al z h fill last [simplified])
  show ?thesis unfolding run t w' by (rule refl)
qed


text \<open>Whether the block is large enough depends on the types \<open>XX\<close>, whose columns are not counted but printed.\<close>

lemma length_commas: "ns \<noteq> [] \<Longrightarrow> length (commas ns) + 2 = sum_list (map (\<lambda>s. length s + 2) ns)"
  by (induction ns rule: commas.induct) auto

definition uncounted :: "cstr list \<Rightarrow> cstr list \<Rightarrow> nat" where
  "uncounted ns ts = sum_list (map2 (\<lambda>s t. if t = lit ''XX'' then length s + 2 else 0) ns ts)"

definition counted :: "cstr list \<Rightarrow> nat" where
  "counted ts = length (filter (\<lambda>t. t \<noteq> lit ''XX'') ts)"

lemma df_fits:
  assumes "ns \<noteq> []" "length ts = length ns"
  shows "length (df_text ns) < df_size ns ts \<longleftrightarrow>
    uncounted ns ts < 33 + 2 * counted ts"
proof -
  have "sum_list (map (\<lambda>s. length s + 2) ns) + 2 * counted ts =
    sum_list (map2 (\<lambda>s t. if t = lit ''XX'' then 0 else length s + 4) ns ts) +
    uncounted ns ts"
    using assms(2) [symmetric] by (induction ns ts rule: list_induct2) (simp_all add: counted_def uncounted_def)
  moreover have "length (df_text ns) = 20 + length (commas ns)" by (simp add: df_text_def)
  ultimately show ?thesis using length_commas [OF assms(1)] unfolding df_size_def by linarith
qed


text \<open>C0. With no column of type \<open>XX\<close> the block is always large enough.\<close>

theorem mk_df_str_builds:
  assumes "ns \<noteq> []" "length ts = length ns" "list_all no_nul ns" "df_size ns ts < 2 ^ 31" "mallocs w = []"
    and "lit ''XX'' \<notin> set ts"
  shows "\<exists>w'. mk_df_str bye (Some (map Some ns)) (Some (map Some ts)) (int (length ns)) w = Done (Ptr (next_id w)) w' \<and>
    load_str (Ptr (next_id w)) w' = Done (df_text ns) w'"
proof -
  have x: "uncounted ns ts = 0"
    using assms(2,6) by (induction rule: list_induct2) (auto simp: uncounted_def)
  have lt: "length (df_text ns) < df_size ns ts" unfolding df_fits [OF assms(1,2)] x by simp
  then obtain k where k: "df_size ns ts - length (df_text ns) = Suc k" by (metis Suc_diff_Suc)
  have "no_nul (df_text ns)" using assms(3) by (simp add: df_text_def df_head_def no_nul_commas)
  then show ?thesis using mk_df_str_run [OF assms(1-5), of bye] lt by (simp add: k load_str_def)
qed


theorem mk_df_str_builds_witness:
  "\<exists>w'. mk_df_str (\<lambda>_. Done Null) (Some [Some (lit ''a''), Some (lit ''b'')]) (Some [Some (lit ''F8''), Some (lit ''I4'')]) 2
      (peer_world []) = Done (Ptr 0) w' \<and> load_str (Ptr 0) w' = Done (lit ''rsdf <- data.frame(a, b)'') w'"
  using mk_df_str_builds [of "[lit ''a'', lit ''b'']" "[lit ''F8'', lit ''I4'']" "peer_world []" "\<lambda>_. Done Null"]
  by (simp add: df_size_def df_text_def df_head_def peer_world_def lit_def)

text \<open>C32. A column of type \<open>XX\<close> is left out of the size but not out of the text: the block is written beyond as soon as
  the names of these columns outweigh the slack, and otherwise holds the text.\<close>

theorem mk_df_str_outcome:
  assumes "ns \<noteq> []" "length ts = length ns" "list_all no_nul ns" "df_size ns ts < 2 ^ 31" "mallocs w = []"
  shows "mk_df_str bye (Some (map Some ns)) (Some (map Some ts)) (int (length ns)) w =
    (if uncounted ns ts < 33 + 2 * counted ts
     then Done (Ptr (next_id w)) (w\<lparr>next_id := Suc (next_id w),
       heap := (heap w)(next_id w \<mapsto> df_text ns @ replicate (df_size ns ts - length (df_text ns)) 0)\<rparr>)
     else Undef Out_of_bounds)"
  using mk_df_str_run [OF assms] by (simp only: df_fits [OF assms(1,2)])

theorem mk_df_str_outcome_witness:
  "mk_df_str (\<lambda>_. Done Null) (Some [Some (replicate 31 65)]) (Some [Some (lit ''XX'')]) 1 (peer_world []) = Undef Out_of_bounds"
  using mk_df_str_outcome [of "[replicate 31 65]" "[lit ''XX'']" "peer_world []" "\<lambda>_. Done Null"]
  by (simp add: df_size_def uncounted_def counted_def peer_world_def no_nul_def)

text \<open>Bad arguments lead to the missing label.\<close>

lemma mk_df_str_rejects:
  "mk_df_str bye None col_types ncols w = bye (-1) w"
  "mk_df_str bye col_names None ncols w = bye (-1) w"
  "ncols < 1 \<Longrightarrow> mk_df_str bye col_names col_types ncols w = bye (-1) w"
  by (simp_all add: mk_df_str_def proc_def exec_chain split: option.split)

end
