(* ===== verification/Clock.thy ===== *)
theory Clock
  imports Prelude
begin

text \<open>
  Time: \<open>get_time_usec\<close> of src/get_time_usec.c and the reader of the time stamp counter of
  sample_client_socket/my_client.c. What the kernel and the processor deliver is an argument.
\<close>

unbundle bit_operations_syntax

record timeval =
  tv_sec :: "64 word"
  tv_usec :: "64 word"

definition get_time_usec :: "timeval \<Rightarrow> 64 word" where
  "get_time_usec tps = tv_usec tps + 1000000 * tv_sec tps"

definition RDTSC :: "u32 \<Rightarrow> u32 \<Rightarrow> 64 word" where
  "RDTSC lo hi = push_bit 32 (ucast hi) OR ucast lo"

text \<open>\<open>gettimeofday\<close> delivers less than a million microseconds. The sum does not wrap for half a million years.\<close>

definition proper_time :: "timeval \<Rightarrow> bool" where
  "proper_time tps \<longleftrightarrow> unat (tv_usec tps) < 1000000 \<and> unat (tv_sec tps) < 2 ^ 44"

lemma get_time_usec_value:
  assumes "proper_time tps"
  shows "unat (get_time_usec tps) = 1000000 * unat (tv_sec tps) + unat (tv_usec tps)"
proof -
  have "1000000 * unat (tv_sec tps) + unat (tv_usec tps) < 2 ^ 64" using assms by (simp add: proper_time_def)
  moreover have "get_time_usec tps = of_nat (1000000 * unat (tv_sec tps) + unat (tv_usec tps))"
    by (simp add: get_time_usec_def add.commute)
  ultimately show ?thesis by (simp only: unat_of_nat_size)
qed

text \<open>The time comes apart again, and later times have larger values.\<close>

theorem get_time_usec_reads_back:
  assumes "proper_time a" "proper_time b"
  shows "unat (get_time_usec a) div 1000000 = unat (tv_sec a) \<and> unat (get_time_usec a) mod 1000000 = unat (tv_usec a) \<and>
    (get_time_usec a < get_time_usec b \<longleftrightarrow>
      tv_sec a < tv_sec b \<or> tv_sec a = tv_sec b \<and> tv_usec a < tv_usec b)"
proof -
  note v = get_time_usec_value [OF assms(1)] get_time_usec_value [OF assms(2)]
  have u: "unat (tv_usec a) < 1000000" "unat (tv_usec b) < 1000000" using assms by (simp_all add: proper_time_def)
  have "get_time_usec a < get_time_usec b \<longleftrightarrow>
      unat (tv_sec a) < unat (tv_sec b) \<or> unat (tv_sec a) = unat (tv_sec b) \<and> unat (tv_usec a) < unat (tv_usec b)"
    unfolding word_less_nat_alt v using u by linarith
  then show ?thesis using u by (simp add: v word_less_nat_alt word_unat_eq_iff)
qed

lemma RDTSC_value: "unat (RDTSC lo hi) = unat hi * 2 ^ 32 + unat lo"
proof -
  have "push_bit 32 (ucast hi) AND ucast lo = (0 :: 64 word)"
    by (rule bit_word_eqI) (auto simp: bit_simps dest: bit_imp_le_length)
  then have "RDTSC lo hi = push_bit 32 (ucast hi) + ucast lo"
    by (simp add: RDTSC_def disjunctive_add_eq_or)
  also have "\<dots> = of_nat (unat hi * 2 ^ 32 + unat lo)"
    by (simp add: push_bit_eq_mult)
  finally have e: "RDTSC lo hi = of_nat (unat hi * 2 ^ 32 + unat lo)" .
  have "unat hi < 2 ^ 32" "unat lo < 2 ^ 32" by (rule order_less_le_trans [OF unsigned_less], simp)+
  then have "unat hi * 2 ^ 32 + unat lo < 2 ^ 64" by simp
  then show ?thesis unfolding e by (rule unat_of_nat_size)
qed

end
