(* ===== verification/Wire_Codes.thy ===== *)
theory Wire_Codes
  imports Wire
begin

text \<open>
  The codes of rincs/Rsrv.h that the client does not use itself: error codes of responses, the other commands, the
  other parameter and expression types. The lemmas say what the client may rely on when it meets them: they are
  pairwise different, errors fit the status byte of a response, types leave room for their flags, and which
  commands carry a payload without parameters or go to the master process.
\<close>

section \<open>Errors\<close>

definition ERR_auth_failed :: u32 where "ERR_auth_failed = 0x41"
definition ERR_conn_broken :: u32 where "ERR_conn_broken = 0x42"
definition ERR_inv_cmd :: u32 where "ERR_inv_cmd = 0x43"
definition ERR_inv_par :: u32 where "ERR_inv_par = 0x44"
definition ERR_Rerror :: u32 where "ERR_Rerror = 0x45"
definition ERR_IOerror :: u32 where "ERR_IOerror = 0x46"
definition ERR_notOpen :: u32 where "ERR_notOpen = 0x47"
definition ERR_accessDenied :: u32 where "ERR_accessDenied = 0x48"
definition ERR_unsupportedCmd :: u32 where "ERR_unsupportedCmd = 0x49"
definition ERR_unknownCmd :: u32 where "ERR_unknownCmd = 0x4a"
definition ERR_data_overflow :: u32 where "ERR_data_overflow = 0x4b"
definition ERR_object_too_big :: u32 where "ERR_object_too_big = 0x4c"
definition ERR_out_of_mem :: u32 where "ERR_out_of_mem = 0x4d"
definition ERR_ctrl_closed :: u32 where "ERR_ctrl_closed = 0x4e"
definition ERR_session_busy :: u32 where "ERR_session_busy = 0x50"
definition ERR_detach_failed :: u32 where "ERR_detach_failed = 0x51"
definition ERR_disabled :: u32 where "ERR_disabled = 0x61"
definition ERR_unavailable :: u32 where "ERR_unavailable = 0x62"
definition ERR_cryptError :: u32 where "ERR_cryptError = 0x63"
definition ERR_securityClose :: u32 where "ERR_securityClose = 0x64"

section \<open>Commands\<close>

definition CMD_login :: u32 where "CMD_login = 0x001"
definition CMD_switch :: u32 where "CMD_switch = 0x005"
definition CMD_keyReq :: u32 where "CMD_keyReq = 0x006"
definition CMD_secLogin :: u32 where "CMD_secLogin = 0x007"
definition CMD_OCcall :: u32 where "CMD_OCcall = 0x00f"
definition CMD_OCinit :: u32 where "CMD_OCinit = 0x434f7352"
definition CMD_openFile :: u32 where "CMD_openFile = 0x010"
definition CMD_createFile :: u32 where "CMD_createFile = 0x011"
definition CMD_closeFile :: u32 where "CMD_closeFile = 0x012"
definition CMD_readFile :: u32 where "CMD_readFile = 0x013"
definition CMD_writeFile :: u32 where "CMD_writeFile = 0x014"
definition CMD_removeFile :: u32 where "CMD_removeFile = 0x015"
definition CMD_assignSEXP :: u32 where "CMD_assignSEXP = 0x021"
definition CMD_detachSession :: u32 where "CMD_detachSession = 0x030"
definition CMD_detachedVoidEval :: u32 where "CMD_detachedVoidEval = 0x031"
definition CMD_attachSession :: u32 where "CMD_attachSession = 0x032"
definition CMD_ctrl :: u32 where "CMD_ctrl = 0x40"
definition CMD_ctrlEval :: u32 where "CMD_ctrlEval = 0x42"
definition CMD_ctrlSource :: u32 where "CMD_ctrlSource = 0x45"
definition CMD_ctrlShutdown :: u32 where "CMD_ctrlShutdown = 0x44"
definition CMD_setBufferSize :: u32 where "CMD_setBufferSize = 0x081"
definition CMD_setEncoding :: u32 where "CMD_setEncoding = 0x082"
definition CMD_SPECIAL_MASK :: u32 where "CMD_SPECIAL_MASK = 0xf0"
definition CMD_serEval :: u32 where "CMD_serEval = 0xf5"
definition CMD_serAssign :: u32 where "CMD_serAssign = 0xf6"
definition CMD_serEEval :: u32 where "CMD_serEEval = 0xf7"

section \<open>Parameter types\<close>

definition DT_INT :: u32 where "DT_INT = 1"
definition DT_CHAR :: u32 where "DT_CHAR = 2"
definition DT_DOUBLE :: u32 where "DT_DOUBLE = 3"
definition DT_BYTESTREAM :: u32 where "DT_BYTESTREAM = 5"
definition DT_ARRAY :: u32 where "DT_ARRAY = 11"
definition DT_CUSTOM :: u32 where "DT_CUSTOM = 32"
definition DT_LARGE :: u32 where "DT_LARGE = 64"

section \<open>Expression types\<close>

definition XT_INT :: u32 where "XT_INT = 1"
definition XT_DOUBLE :: u32 where "XT_DOUBLE = 2"
definition XT_STR :: u32 where "XT_STR = 3"
definition XT_LANG :: u32 where "XT_LANG = 4"
definition XT_SYM :: u32 where "XT_SYM = 5"
definition XT_BOOL :: u32 where "XT_BOOL = 6"
definition XT_S4 :: u32 where "XT_S4 = 7"
definition XT_VECTOR :: u32 where "XT_VECTOR = 16"
definition XT_LIST :: u32 where "XT_LIST = 17"
definition XT_CLOS :: u32 where "XT_CLOS = 18"
definition XT_LIST_NOTAG :: u32 where "XT_LIST_NOTAG = 20"
definition XT_LANG_NOTAG :: u32 where "XT_LANG_NOTAG = 22"
definition XT_LANG_TAG :: u32 where "XT_LANG_TAG = 23"
definition XT_VECTOR_EXP :: u32 where "XT_VECTOR_EXP = 26"
definition XT_VECTOR_STR :: u32 where "XT_VECTOR_STR = 27"
definition XT_ARRAY_BOOL_UA :: u32 where "XT_ARRAY_BOOL_UA = 35"
definition XT_RAW :: u32 where "XT_RAW = 37"
definition XT_ARRAY_CPLX :: u32 where "XT_ARRAY_CPLX = 38"
definition XT_UNKNOWN :: u32 where "XT_UNKNOWN = 48"

section \<open>Truth values and server flags\<close>

definition BOOL_TRUE :: u32 where "BOOL_TRUE = 1"
definition BOOL_FALSE :: u32 where "BOOL_FALSE = 0"
definition BOOL_NA :: u32 where "BOOL_NA = 2"
definition SRV_QAP_OC :: u32 where "SRV_QAP_OC = 0x40"
definition SRV_QAP_FLAGS :: u32 where "SRV_QAP_FLAGS = SRV_QAP_OC"

section \<open>Tables\<close>

definition error_codes :: "u32 list" where
  "error_codes = [ERR_auth_failed, ERR_conn_broken, ERR_inv_cmd, ERR_inv_par, ERR_Rerror,
     ERR_IOerror, ERR_notOpen, ERR_accessDenied, ERR_unsupportedCmd, ERR_unknownCmd,
     ERR_data_overflow, ERR_object_too_big, ERR_out_of_mem, ERR_ctrl_closed, ERR_session_busy,
     ERR_detach_failed, ERR_disabled, ERR_unavailable, ERR_cryptError, ERR_securityClose]"

definition command_codes :: "u32 list" where
  "command_codes = [CMD_login, CMD_voidEval, CMD_eval, CMD_shutdown, CMD_switch,
     CMD_keyReq, CMD_secLogin, CMD_OCcall, CMD_openFile, CMD_createFile,
     CMD_closeFile, CMD_readFile, CMD_writeFile, CMD_removeFile, CMD_setSEXP,
     CMD_assignSEXP, CMD_detachSession, CMD_detachedVoidEval, CMD_attachSession, CMD_ctrlEval,
     CMD_ctrlSource, CMD_ctrlShutdown, CMD_setBufferSize, CMD_setEncoding, CMD_serEval,
     CMD_serAssign, CMD_serEEval]"

definition parameter_types :: "u32 list" where
  "parameter_types = [DT_INT, DT_CHAR, DT_DOUBLE, DT_STRING, DT_BYTESTREAM,
     DT_SEXP, DT_ARRAY, DT_CUSTOM]"

definition expression_types :: "u32 list" where
  "expression_types = [XT_NULL, XT_INT, XT_DOUBLE, XT_STR, XT_LANG,
     XT_SYM, XT_BOOL, XT_S4, XT_VECTOR, XT_LIST,
     XT_CLOS, XT_SYMNAME, XT_LIST_NOTAG, XT_LIST_TAG, XT_LANG_NOTAG,
     XT_LANG_TAG, XT_VECTOR_EXP, XT_VECTOR_STR, XT_ARRAY_INT, XT_ARRAY_DOUBLE,
     XT_ARRAY_STR, XT_ARRAY_BOOL_UA, XT_ARRAY_BOOL, XT_RAW, XT_ARRAY_CPLX,
     XT_UNKNOWN]"

lemmas error_code_defs = error_codes_def ERR_auth_failed_def ERR_conn_broken_def ERR_inv_cmd_def
  ERR_inv_par_def ERR_Rerror_def ERR_IOerror_def ERR_notOpen_def ERR_accessDenied_def ERR_unsupportedCmd_def
  ERR_unknownCmd_def ERR_data_overflow_def ERR_object_too_big_def ERR_out_of_mem_def ERR_ctrl_closed_def
  ERR_session_busy_def ERR_detach_failed_def ERR_disabled_def ERR_unavailable_def ERR_cryptError_def
  ERR_securityClose_def
lemmas command_code_defs = command_codes_def CMD_login_def CMD_voidEval_def CMD_eval_def CMD_shutdown_def
  CMD_switch_def CMD_keyReq_def CMD_secLogin_def CMD_OCcall_def CMD_openFile_def CMD_createFile_def
  CMD_closeFile_def CMD_readFile_def CMD_writeFile_def CMD_removeFile_def CMD_setSEXP_def CMD_assignSEXP_def
  CMD_detachSession_def CMD_detachedVoidEval_def CMD_attachSession_def CMD_ctrlEval_def CMD_ctrlSource_def
  CMD_ctrlShutdown_def CMD_setBufferSize_def CMD_setEncoding_def CMD_serEval_def CMD_serAssign_def
  CMD_serEEval_def
lemmas parameter_type_defs = parameter_types_def DT_INT_def DT_CHAR_def DT_DOUBLE_def DT_STRING_def
  DT_BYTESTREAM_def DT_SEXP_def DT_ARRAY_def DT_CUSTOM_def
lemmas expression_type_defs = expression_types_def XT_NULL_def XT_INT_def XT_DOUBLE_def XT_STR_def XT_LANG_def
  XT_SYM_def XT_BOOL_def XT_S4_def XT_VECTOR_def XT_LIST_def XT_CLOS_def XT_SYMNAME_def XT_LIST_NOTAG_def
  XT_LIST_TAG_def XT_LANG_NOTAG_def XT_LANG_TAG_def XT_VECTOR_EXP_def XT_VECTOR_STR_def XT_ARRAY_INT_def
  XT_ARRAY_DOUBLE_def XT_ARRAY_STR_def XT_ARRAY_BOOL_UA_def XT_ARRAY_BOOL_def XT_RAW_def XT_ARRAY_CPLX_def
  XT_UNKNOWN_def

section \<open>Facts\<close>

lemma codes_distinct:
  "distinct error_codes" "distinct command_codes" "distinct parameter_types" "distinct expression_types"
  by (simp_all add: error_code_defs command_code_defs parameter_type_defs expression_type_defs)

text \<open>An error survives in the status of the response that reports it, which still reads as an error response.\<close>

lemma error_status:
  "list_all (\<lambda>e. CMD_STAT (SET_STAT RESP_ERR e) = e \<and> SET_STAT RESP_ERR e AND 0xffffff = RESP_ERR) error_codes"
  by (simp add: error_code_defs CMD_STAT_def SET_STAT_def RESP_ERR_def CMD_RESP_def signed_drop_bit_word_numeral)

text \<open>Commands fit one byte, so none is taken for a response or out-of-band data; the initial packet of an
  object-capability server, \<open>CMD_OCinit\<close>, does carry the flag of responses.\<close>

lemma commands_are_requests:
  "list_all (\<lambda>c. c < 0x100 \<and> c AND CMD_RESP = 0 \<and> c AND CMD_OOB = 0) command_codes" "CMD_OCinit AND CMD_RESP = CMD_RESP"
  by (simp_all add: command_code_defs cmd_codes CMD_RESP_def CMD_OOB_def CMD_OCinit_def)

lemma special_commands:
  "filter (\<lambda>c. c AND CMD_SPECIAL_MASK = CMD_SPECIAL_MASK) command_codes = [CMD_serEval, CMD_serAssign, CMD_serEEval]"
  "filter (\<lambda>c. c AND CMD_SPECIAL_MASK = CMD_ctrl) command_codes = [CMD_ctrlEval, CMD_ctrlSource, CMD_ctrlShutdown]"
  by (simp_all add: command_code_defs cmd_codes CMD_SPECIAL_MASK_def CMD_ctrl_def)

text \<open>A type with its flags goes through the type byte of a header word and comes apart again.\<close>

definition with_flags :: "bool \<Rightarrow> bool \<Rightarrow> u32 \<Rightarrow> u32" where
  "with_flags large attr t = t OR (if large then XT_LARGE else 0) OR (if attr then XT_HAS_ATTR else 0)"

definition comes_apart :: "bool \<Rightarrow> bool \<Rightarrow> u32 \<Rightarrow> bool" where
  "comes_apart large attr t \<longleftrightarrow> GET_XT (with_flags large attr t) = t \<and> HAS_ATTR (with_flags large attr t) = attr \<and>
     IS_LARGE (with_flags large attr t) = large \<and> with_flags large attr t AND 255 = with_flags large attr t"

lemma types_come_apart: "list_all (comes_apart large attr) expression_types" "list_all (comes_apart large attr) parameter_types"
  by (cases large; cases attr; simp add: expression_type_defs parameter_type_defs xt_codes dt_codes comes_apart_def with_flags_def
    GET_XT_def HAS_ATTR_def IS_LARGE_def)+

theorem typed_word_roundtrip:
  assumes "t \<in> set expression_types \<or> t \<in> set parameter_types"
  shows "let x = SET_PAR (with_flags large attr t) l in
    GET_XT (PAR_TYPE x) = t \<and> HAS_ATTR (PAR_TYPE x) = attr \<and> IS_LARGE (PAR_TYPE x) = large \<and> PAR_LEN x = l AND 0xffffff"
  using assms types_come_apart [of large attr]
  by (auto simp: list_all_iff comes_apart_def PAR_TYPE_SET_PAR PAR_LEN_SET_PAR Let_def)

theorem typed_word_roundtrip_witness: "GET_XT (PAR_TYPE (SET_PAR (with_flags False True XT_LIST_TAG) 5)) = XT_LIST_TAG"
  using typed_word_roundtrip [of XT_LIST_TAG False True 5] by (simp add: expression_types_def Let_def)

end
