(* ===== verification/Macros.thy ===== *)
theory Macros
  imports Cmd
begin

text \<open>
  The macros of inc/macros.h for files, directories, allocations and mappings (theory Cmd has those that end in
  \<open>goto BYE\<close>, Machine has \<open>free_if_non_null\<close>). The sources use \<open>return_if_malloc_failed\<close> only, written there as
  \<open>bye_when\<close> on a null pointer. A pointer variable is an option, \<open>None\<close> for NULL; a macro that
  assigns to its argument returns the new value. \<open>fclose\<close> and \<open>munmap\<close> are arguments; the diagnostics are left out.
\<close>

definition fclose_if_non_null :: "('f \<Rightarrow> 'w \<Rightarrow> (unit, 'w) outcome) \<Rightarrow> 'f option \<Rightarrow> 'w \<Rightarrow> ('f option, 'w) outcome" where
  "fclose_if_non_null fclose x w = (case x of
       None \<Rightarrow> Done x w
     | Some f \<Rightarrow> obind (fclose f w) (\<lambda>_. Done None))"

definition return_if_fopen_failed :: "'f option \<Rightarrow> (unit, 'r, 'l, 'w) cmd" where
  "return_if_fopen_failed fp = bye_when (fp = None) (-1)"

definition return_if_malloc_failed :: "'p option \<Rightarrow> (unit, 'r, 'l, 'w) cmd" where
  "return_if_malloc_failed x = bye_when (x = None) (-1)"

definition return_if_opendir_failed :: "'d option \<Rightarrow> (unit, 'r, 'l, 'w) cmd" where
  "return_if_opendir_failed dr = bye_when (dr = None) (-1)"

definition mcr_min :: "int \<Rightarrow> int \<Rightarrow> int" where
  "mcr_min x y = (if x < y then x else y)"

definition mcr_rs_munmap ::
    "('p \<Rightarrow> nat \<Rightarrow> 'w \<Rightarrow> (int, 'w) outcome) \<Rightarrow> 'p option \<Rightarrow> nat \<Rightarrow> 'w \<Rightarrow> ('p option \<times> nat, 'w) outcome" where
  "mcr_rs_munmap munmap x n w = (case x of
       None \<Rightarrow> Done (None, 0) w
     | Some p \<Rightarrow> obind (munmap p n w) (\<lambda>l_status. Done (None, 0)))"

text \<open>A release nulls its variable, so a second one releases nothing.\<close>

lemma release_twice:
  "obind (fclose_if_non_null fclose x w) (fclose_if_non_null fclose) = fclose_if_non_null fclose x w"
  "obind (mcr_rs_munmap munmap y n w) (\<lambda>(y, n). mcr_rs_munmap munmap y n) = mcr_rs_munmap munmap y n w"
  by (auto simp: fclose_if_non_null_def mcr_rs_munmap_def obind_def split: option.split outcome.split)

lemma mcr_min_is_min: "mcr_min = min"
  by (intro ext) (simp add: mcr_min_def min_def)

text \<open>What follows a check has a pointer.\<close>

lemma wp_return_if_failed:
  "wp blk (return_if_fopen_failed fp) Q B R l w \<longleftrightarrow> (if fp = None then B (-1) l w else Q () l w)"
  "wp blk (return_if_malloc_failed p) Q B R l w \<longleftrightarrow> (if p = None then B (-1) l w else Q () l w)"
  "wp blk (return_if_opendir_failed dr) Q B R l w \<longleftrightarrow> (if dr = None then B (-1) l w else Q () l w)"
  by (simp_all add: return_if_fopen_failed_def return_if_malloc_failed_def return_if_opendir_failed_def wp_simps)

end
