(* ===== verification/Spec2Isabelle.thy ===== *)
theory Spec2Isabelle
  imports Queries Connection Scalars Get_Vec Assign Get_Named_Vec Echo_Main Chat Unit_Test Client Closed_Loop Mk_Df_Str Clock Wire_Codes Macros
begin

text \<open>
  A verification development for C2R: a C library that lets a program talk to a running R through Rserve's
  QAP1 protocol over a TCP connection, with a small shutdown program and four sample programs.

  \<^bold>\<open>The program.\<close> A session is opened by \<open>rconnect\<close> (src/aux_rcli.c). Every call then sends one packet, a 16-byte
  header \<open>struct phdr\<close> (rincs/Rsrv.h) and one or two parameters, and reads one packet back. \<open>exec_str\<close> evaluates a
  string and hands back the content of the answer in a block of \<open>malloc\<close>; \<open>exists1\<close>, \<open>exists2\<close>, \<open>is_vector\<close>,
  \<open>get_bool\<close>, \<open>set_bool\<close>, \<open>get_vec_len\<close>, \<open>chk_R_class\<close> and \<open>n_df\<close> are written on top of it, while \<open>get_F8\<close>, \<open>get_I4\<close>,
  \<open>get_vec\<close>, \<open>get_named_vec_F8\<close> and \<open>set_vec\<close> repeat its sending part and read or write vectors themselves.

  \<^bold>\<open>Theories and sources.\<close>
  \<^item> Prelude: machine integers of an LP64 little-endian host (\<open>u32\<close>, \<open>size_t\<close> as words, \<open>int\<close> as \<open>int\<close> with its
    range), little-endian layout, C strings as byte lists without their NUL. Arrays: arrays of fixed-width elements
    and packed strings in byte buffers, with the locale \<open>element\<close> and its instances for 8, 4 and 1 bytes.
  \<^item> Cmd: the shape of every function: a body over its locals and the world that may leave by \<open>goto BYE\<close>
    (\<open>go_BYE\<close>, \<open>cBYE\<close> of inc/macros.h) or by \<open>return\<close>, and its BYE section (\<open>proc\<close>); calls return, are undefined (with
    the kind of undefined behaviour) or block. \<open>wp\<close> and \<open>runs\<close> are their weakest
    preconditions. Macros has the other macros of inc/macros.h.
  \<^item> Machine: the record \<open>world\<close> with the sockets and the heap, and the calls of libc and the kernel. What the
    environment decides is data of the world: the pieces in which bytes arrive, ends and errors of streams, short
    or failing sends, failing allocations, the contents of fresh memory, which descriptors are handed out. A theorem
    about all worlds is one about all environments.
  \<^item> Wire, Wire_Codes (rincs/Rsrv.h): codes, header words, layout of \<open>phdr\<close>. Transport (aux_rcli.c): \<open>get_buf_from_sock\<close>,
    \<open>read_hdr\<close>, \<open>close_conn\<close>. Request (aux_rcli.c): \<open>mk_dt_string\<close>, \<open>mk_hdr\<close>. Rpc: the sending part all calls share.
    Exec_Str (aux_rcli.c): \<open>exec_str\<close>. Queries (exists.c, get_bool.c, get_vec.c, get_vec_len.c, chk_R_class.c, n_df.c).
    Connection (aux_rcli.c, rshutdown.c): \<open>rconnect\<close>, \<open>rshutdown\<close>, the program rshutdown. Segment: the bare \<open>read\<close> of
    header words. Scalars (get_F8.c, get_I4.c), Get_Vec (get_vec.c), Set_Vec and Assign (set_vec.c), Get_Named_Vec
    (get_named_vec.c).
  \<^item> Session: sequences of calls. Client: connect, a sequence of calls, close. Server_View: a reader of the protocol, for
    what a session writes. Closed_Loop: a server that works on what it reads, with R's evaluation of texts as a parameter. Mk_Df_Str (mk_df_str.c) and Clock (get_time_usec.c, the time stamp counter of my_client.c): functions
    that no part of the library calls. Echo, Echo_Main (my_client.c, my_server.c) and Chat (client.c, server.c): the sample
    programs of sample_client_socket. Unit_Test (test/unit_test_1.c): the scenarios \<open>test1\<close>, \<open>test4\<close>, \<open>test5\<close>, \<open>test9\<close>.

  Functions keep their names. A result of \<open>proc\<close> pairs the status with what is stored through the out-pointers
  (\<open>None\<close>: nothing was stored). Locals that BYE reads are fields of a record (\<open>exec_vars\<close>, \<open>vec_vars\<close>, \<open>set_vars\<close>, ...),
  others are bound variables; an uninitialised one is \<open>Indet\<close>. A NULL pointer argument is \<open>None\<close> or \<open>Null\<close>.
\<close>

text \<open>
  \<^bold>\<open>Interfaces.\<close> Each is a locale, interpreted on the model where it is provided.
  \<^item> \<open>allocator\<close> (Machine): allocating, storing, loading and freeing blocks that one owns; instances for any environment
    and for a healthy one.
  \<^item> \<open>channel\<close> (Rpc), an \<open>allocator\<close> that can send, and \<open>lender\<close>, a \<open>channel\<close> with the caller's blocks to read from;
    instances for any environment, a healthy one, and one whose answers come in one segment (Segment).
  \<^item> \<open>reader\<close> (Rpc), a healthy \<open>lender\<close> that delivers an expected stream of bytes; instances \<open>online_reader\<close> (however the
    bytes are grouped) and \<open>segment_reader\<close>. The functional correctness of \<open>exec_str\<close> and \<open>set_vec\<close> is proved in it once.
  \<^item> \<open>evaluator\<close> (Exec_Str): one evaluation as the query functions use it; every \<open>reader\<close> is one by \<open>sublocale\<close>, and
    \<open>any_eval\<close> is the instance for any environment.
  \<^item> \<open>element\<close> (Arrays): fixed-width encodings.

  \<^bold>\<open>What is shown.\<close>
  \<^item> In any environment: \<open>exec_str\<close>, the queries \<open>exists1\<close>, \<open>get_bool\<close>, \<open>set_bool\<close>, \<open>set_vec\<close> (except strings),
    \<open>get_named_vec_F8\<close>, \<open>rconnect\<close> and \<open>rshutdown\<close> have no undefined behaviour, leak no memory, and wait for ever only
    for a peer that neither closes nor is subject to a receive timeout.
  \<^item> In a healthy environment: the exact bytes each call sends, that it consumes exactly its answer, and what it makes
    of it, for every segmentation where the code reads with \<open>get_buf_from_sock\<close> and for one segment where it
    reads with a bare \<open>read\<close>.
  \<^item> \<open>get_buf_from_sock\<close> refines reading from a byte stream; sequences of calls refine an abstract environment of
    R variables (\<open>session_refines_env\<close>); sessions in any environment keep an invariant and make progress. Both extend to the whole life of a client (\<open>client_life_refines_env\<close>, \<open>client_life_safe\<close>). A strict
    reader decodes the requests of a session to the commands asked for, except for assignments (\<open>session_requests_decode\<close>). A server that reads
    the client's bytes, assignments included, computes the very responses that give the client those results
    (\<open>session_closes_loop\<close>).
  \<^item> Where the code goes wrong the theorem says how: the free of an indeterminate pointer in \<open>get_vec\<close>, short reads in
    \<open>get_F8\<close>, the leak in \<open>n_df\<close>, refused arrays in \<open>get_named_vec_F8\<close>, the buffer
    \<open>mk_df_str\<close> overruns, the unit test that may fail against a correct server, overruns and endless loops of the sample programs.

  \<^bold>\<open>Loops and bounds.\<close> The read loop of \<open>get_buf_from_sock\<close> ends because every round shortens what is asked for, the
  rounding loop of \<open>mk_dt_string\<close> because the distance to the next multiple of 8 shrinks, the chat loops because each
  round takes a line from the keyboard: they are total functions. The read loops of the bandwidth samples need not
  end and are partial functions into \<open>option\<close>. There is no fuel. Hypotheses on sizes are those of the packet format:
  a name of less than 2 GB (\<open>short_name\<close>, \<open>name_fits\<close>, \<open>fits_packet\<close>), fewer than \<open>2^24\<close> bytes in a vector that is read.

  \<^bold>\<open>Not modelled.\<close> Diagnostics on stdout and stderr, prompts and the clock of my_client. The server's side of the
  protocol: what R answers is data of the world, and hypotheses describe it with the layouts of Rsrv.h; the server of
  Closed_Loop specifies the part the client relies on. The other
  headers copied from Rserve, which are declarations of the server, and the prototypes of inc. src/mk_df_str.c does not compile (a missing header, \<open>go_BYE\<close> without its label: the model takes what stands
  there as a parameter). The other scenarios of test/unit_test_1.c and its \<open>main\<close> need a live R. In the kernel a write to
  a connection whose peer is gone kills the process by a signal; here it is a failing or complete send.
\<close>

end
